theory Spec2Isabelle
  imports Main "HOL-Library.AList"
begin

section \<open>Python values as the HTTP client layer observes them\<close>

text \<open>
  The module \<^verbatim>\<open>app/core/http_client.py\<close> receives its options as \<^verbatim>\<open>Any\<close>.
  It only ever tests a value for being \<^verbatim>\<open>None\<close>, a \<^verbatim>\<open>str\<close> or a \<^verbatim>\<open>dict\<close>, for its
  truth value, for equality with the literals \<^verbatim>\<open>False\<close> and \<^verbatim>\<open>0\<close>, and takes its \<^verbatim>\<open>str()\<close>.
  An object of any other class is therefore represented by those three observations:
  \<open>PObj t n s\<close> has truth value \<open>t\<close>, compares equal to the integer \<open>n\<close> (if any; the float
  \<^verbatim>\<open>0.0\<close> is \<open>PObj False (Some 0) ''0.0''\<close>) and prints as \<open>s\<close>.
  Text of the configuration (URLs, scheme names, tokens) is an 8-bit \<open>string\<close>; case
  mapping is modelled on the ASCII letters.
\<close>

datatype pyobj =
    PNone
  | PBool bool
  | PInt int
  | PStr string
  | PObj bool "int option" string

datatype pyval =
    Atom pyobj
  | Dict "(pyobj \<times> pyobj) list"

fun truthy :: "pyobj \<Rightarrow> bool" where
  "truthy PNone = False"
| "truthy (PBool b) = b"
| "truthy (PInt i) = (i \<noteq> 0)"
| "truthy (PStr s) = (s \<noteq> [])"
| "truthy (PObj t n s) = t"

fun truthy_val :: "pyval \<Rightarrow> bool" where
  "truthy_val (Atom a) = truthy a"
| "truthy_val (Dict kvs) = (kvs \<noteq> [])"

function str_of_nat :: "nat \<Rightarrow> string" where
  "str_of_nat n =
     (if n < 10 then [char_of (48 + n)]
      else str_of_nat (n div 10) @ [char_of (48 + n mod 10)])"
  by pat_completeness auto
termination
  by (relation "measure id") auto

declare str_of_nat.simps [simp del]

definition str_of_int :: "int \<Rightarrow> string" where
  "str_of_int i = (if i < 0 then CHR ''-'' # str_of_nat (nat (- i)) else str_of_nat (nat i))"

fun py_str :: "pyobj \<Rightarrow> string" where
  "py_str PNone = ''None''"
| "py_str (PBool b) = (if b then ''True'' else ''False'')"
| "py_str (PInt i) = str_of_int i"
| "py_str (PStr s) = s"
| "py_str (PObj t n s) = s"

definition int_of_bool :: "bool \<Rightarrow> int" where
  "int_of_bool b = (if b then 1 else 0)"

text \<open>
  \<^verbatim>\<open>a == b\<close> for the comparisons the module makes: the right operand is always one of the
  literals of a tuple in the source (a bool, an int or a str).
\<close>

fun py_eq :: "pyobj \<Rightarrow> pyobj \<Rightarrow> bool" where
  "py_eq PNone PNone = True"
| "py_eq (PBool a) (PBool b) = (a = b)"
| "py_eq (PBool a) (PInt j) = (int_of_bool a = j)"
| "py_eq (PInt i) (PBool b) = (i = int_of_bool b)"
| "py_eq (PInt i) (PInt j) = (i = j)"
| "py_eq (PStr s) (PStr t) = (s = t)"
| "py_eq (PObj t n s) (PBool b) = (n = Some (int_of_bool b))"
| "py_eq (PObj t n s) (PInt j) = (n = Some j)"
| "py_eq _ _ = False"

definition py_in :: "pyobj \<Rightarrow> pyobj list \<Rightarrow> bool" where
  "py_in x ys = list_ex (py_eq x) ys"

definition lower_char :: "char \<Rightarrow> char" where
  "lower_char c =
     (if 65 \<le> (of_char c :: nat) \<and> (of_char c :: nat) \<le> 90
      then char_of ((of_char c :: nat) + 32) else c)"

definition upper_char :: "char \<Rightarrow> char" where
  "upper_char c =
     (if 97 \<le> (of_char c :: nat) \<and> (of_char c :: nat) \<le> 122
      then char_of ((of_char c :: nat) - 32) else c)"

definition lower :: "string \<Rightarrow> string" where
  "lower s = map lower_char s"

definition upper :: "string \<Rightarrow> string" where
  "upper s = map upper_char s"

definition startswith :: "string \<Rightarrow> string \<Rightarrow> bool" where
  "startswith s p = (take (length p) s = p)"


section \<open>Proxy resolver\<close>

text \<open>\<^verbatim>\<open>_normalize_proxies\<close>. A \<^verbatim>\<open>dict\<close> is an association list in insertion order;
  \<^verbatim>\<open>out[k] = v\<close> is \<open>AList.update\<close>.\<close>

fun normalize_loop ::
  "(pyobj \<times> pyobj) list \<Rightarrow> (string \<times> string) list \<Rightarrow> (string \<times> string) list" where
  "normalize_loop [] out = out"
| "normalize_loop ((key, proxy) # rest) out =
     (if \<not> truthy proxy then normalize_loop rest out
      else (let k = lower (py_str key) in
            if k = ''http'' \<or> k = ''https''
            then normalize_loop rest (AList.update k (py_str proxy) out)
            else normalize_loop rest out))"

definition normalize_proxies :: "pyval \<Rightarrow> (string \<times> string) list option" where
  "normalize_proxies v =
     (if \<not> truthy_val v then None
      else (case v of
              Dict kvs \<Rightarrow>
                (let out = normalize_loop kvs [] in if out = [] then None else Some out)
            | Atom (PStr s) \<Rightarrow> Some [(''http'', s), (''https'', s)]
            | Atom _ \<Rightarrow> None))"

text \<open>\<^verbatim>\<open>a or b\<close> on the results of \<^verbatim>\<open>dict.get\<close>: the left operand when it is truthy.\<close>

definition or_else :: "string option \<Rightarrow> string option \<Rightarrow> string option" where
  "or_else a b = (case a of None \<Rightarrow> b | Some s \<Rightarrow> if s \<noteq> [] then a else b)"

section \<open>SSL context builder\<close>

datatype trust_source = SystemDefault | Certifi

datatype ssl_setting =
    SSLDisabled
  | SSLContext "trust_source list"

definition verify_tokens :: "pyobj list" where
  "verify_tokens =
     [PBool False, PInt 0, PStr ''0'', PStr ''false'', PStr ''False'', PStr ''no'', PStr ''off'']"

definition ssl_for_verify :: "pyobj \<Rightarrow> ssl_setting" where
  "ssl_for_verify verify =
     (if py_in verify verify_tokens then SSLDisabled
      else SSLContext [SystemDefault, Certifi])"

section \<open>Exceptions, bytes and text\<close>

text \<open>
  The exceptions the module raises or meets, all subclasses of \<^verbatim>\<open>Exception\<close>:
  its own \<^verbatim>\<open>RequestsError\<close>, the \<^verbatim>\<open>RuntimeError\<close> of \<^verbatim>\<open>json()\<close>, the \<^verbatim>\<open>ValueError\<close>
  of \<^verbatim>\<open>urlparse\<close>, the engine's \<^verbatim>\<open>aiohttp.ClientError\<close> family,
  \<^verbatim>\<open>asyncio.TimeoutError\<close>, the \<^verbatim>\<open>ProxyConnectionError\<close> with which the connector of
  \<^verbatim>\<open>aiohttp_socks\<close> reports that the proxy cannot be reached (an \<^verbatim>\<open>OSError\<close>, not an
  \<^verbatim>\<open>aiohttp.ClientError\<close>), and \<open>OtherError cls msg\<close> for an exception of any other class.
  Each carries its \<^verbatim>\<open>str()\<close>. Cancellation of the running task is a matter of the
  scheduler and is not part of this sequential model.
\<close>

datatype exn =
    RequestsError string
  | RuntimeError string
  | ValueError string
  | ClientError string
  | TimeoutError string
  | ProxyConnectionError string
  | OtherError string string

fun exn_str :: "exn \<Rightarrow> string" where
  "exn_str (RequestsError m) = m"
| "exn_str (RuntimeError m) = m"
| "exn_str (ValueError m) = m"
| "exn_str (ClientError m) = m"
| "exn_str (TimeoutError m) = m"
| "exn_str (ProxyConnectionError m) = m"
| "exn_str (OtherError c m) = m"

type_synonym bytes = "char list"

text \<open>Decoded text (\<^verbatim>\<open>str\<close>) is a list of Unicode code points.\<close>

type_synonym unicode = "nat list"

definition text_of :: "string \<Rightarrow> unicode" where
  "text_of s = map of_char s"

definition LF :: char where
  "LF = CHR 0x0A"

definition CR :: char where
  "CR = CHR 0x0D"

text \<open>
  \<^verbatim>\<open>bytes.decode("utf-8", errors="replace")\<close>: CPython's decoder reads one scalar value
  of one to four bytes, or reports an error covering the maximal invalid prefix
  (an invalid start byte, one to three bytes before an invalid continuation byte, or
  everything left when the data ends inside a sequence); the handler puts U+FFFD
  for each error and decoding goes on behind it. \<open>utf8_step\<close> returns the code
  point and the number of bytes used.
\<close>

definition is_cont :: "nat \<Rightarrow> bool" where
  "is_cont b = (0x80 \<le> b \<and> b < 0xC0)"

definition utf8_step :: "nat \<Rightarrow> nat list \<Rightarrow> nat \<times> nat" where
  "utf8_step ch rest =
     (if ch < 0x80 then (ch, 1)
      else if ch < 0xC2 then (0xFFFD, 1)
      else if ch < 0xE0 then
        (case rest of
           [] \<Rightarrow> (0xFFFD, 1)
         | ch2 # _ \<Rightarrow>
             if \<not> is_cont ch2 then (0xFFFD, 1)
             else ((ch - 0xC0) * 64 + (ch2 - 0x80), 2))
      else if ch < 0xF0 then
        (case rest of
           [] \<Rightarrow> (0xFFFD, 1)
         | ch2 # rest2 \<Rightarrow>
             if \<not> is_cont ch2 \<or> (if ch2 < 0xA0 then ch = 0xE0 else ch = 0xED)
             then (0xFFFD, 1)
             else (case rest2 of
                     [] \<Rightarrow> (0xFFFD, 2)
                   | ch3 # _ \<Rightarrow>
                       if \<not> is_cont ch3 then (0xFFFD, 2)
                       else ((ch - 0xE0) * 4096 + (ch2 - 0x80) * 64 + (ch3 - 0x80), 3)))
      else if ch < 0xF5 then
        (case rest of
           [] \<Rightarrow> (0xFFFD, 1)
         | ch2 # rest2 \<Rightarrow>
             if \<not> is_cont ch2 \<or> (if ch2 < 0x90 then ch = 0xF0 else ch = 0xF4)
             then (0xFFFD, 1)
             else (case rest2 of
                     [] \<Rightarrow> (0xFFFD, 2)
                   | ch3 # rest3 \<Rightarrow>
                       if \<not> is_cont ch3 then (0xFFFD, 2)
                       else (case rest3 of
                               [] \<Rightarrow> (0xFFFD, 3)
                             | ch4 # _ \<Rightarrow>
                                 if \<not> is_cont ch4 then (0xFFFD, 3)
                                 else ((ch - 0xF0) * 262144 + (ch2 - 0x80) * 4096
                                         + (ch3 - 0x80) * 64 + (ch4 - 0x80), 4))))
      else (0xFFFD, 1))"

function utf8_decode :: "nat list \<Rightarrow> unicode" where
  "utf8_decode [] = []"
| "utf8_decode (ch # rest) =
     fst (utf8_step ch rest) # utf8_decode (drop (snd (utf8_step ch rest) - 1) rest)"
  by pat_completeness auto
termination
  by (relation "measure length") auto

definition decode :: "bytes \<Rightarrow> unicode" where
  "decode b = utf8_decode (map of_char b)"

text \<open>\<^verbatim>\<open>str.rstrip("\r")\<close> removes every trailing carriage return.\<close>

definition rstrip_cr :: "unicode \<Rightarrow> unicode" where
  "rstrip_cr t = rev (dropWhile (\<lambda>c. c = 13) (rev t))"

text \<open>
  \<^verbatim>\<open>str.splitlines()\<close>: a line ends at LF, VT, FF, CR, CR LF, FS, GS, RS, NEL (U+0085),
  LS (U+2028) or PS (U+2029); the terminators are dropped and nothing follows the last
  terminator when the text ends there.
\<close>

definition is_linebreak :: "nat \<Rightarrow> bool" where
  "is_linebreak c =
     (c = 0x0A \<or> c = 0x0B \<or> c = 0x0C \<or> c = 0x0D \<or> c = 0x1C \<or> c = 0x1D \<or> c = 0x1E \<or>
      c = 0x85 \<or> c = 0x2028 \<or> c = 0x2029)"

fun splitlines_from :: "unicode \<Rightarrow> unicode \<Rightarrow> unicode list" where
  "splitlines_from cur [] = (if cur = [] then [] else [cur])"
| "splitlines_from cur (c # cs) =
     (if is_linebreak c
      then cur # splitlines_from []
                   (if c = 0x0D \<and> cs \<noteq> [] \<and> hd cs = 0x0A then tl cs else cs)
      else splitlines_from (cur @ [c]) cs)"

definition splitlines :: "unicode \<Rightarrow> unicode list" where
  "splitlines t = splitlines_from [] t"

datatype pyfloat = Finite int int | PosInf | NegInf | NaN

datatype json =
    JNull
  | JBool bool
  | JInt int
  | JFloat pyfloat
  | JStr unicode
  | JList "json list"
  | JDict "(unicode \<times> json) list"

section \<open>The engine as the module sees it\<close>

text \<open>
  What one call of \<^verbatim>\<open>ClientSession.request\<close> is given: the session it is issued on (the
  persistent one, or a temporary one built around \<^verbatim>\<open>ProxyConnector.from_url(proxy_url)\<close>
  with its own timeout) and the keyword arguments.
\<close>

datatype target =
    Persistent
  | Temporary string "pyfloat option"

record call =
  c_target :: target
  c_method :: string
  c_url :: string
  c_allow_redirects :: pyobj
  c_proxy :: "string option"
  c_timeout :: "pyfloat option"
  c_ssl :: "ssl_setting option"
  c_extra :: "(string \<times> pyobj) list"

datatype event =
    EvConnector string
  | EvSessionOpen
  | EvRequest call
  | EvRead
  | EvIterChunked nat
  | EvRelease
  | EvSessionClose

text \<open>
  An \<^verbatim>\<open>aiohttp.ClientResponse\<close>: the payload still to be delivered, in the pieces the engine
  will deliver it in, the exception that ends the payload early (if any), and what
  \<^verbatim>\<open>release()\<close> does. A temporary \<^verbatim>\<open>ClientSession\<close>: its \<^verbatim>\<open>closed\<close> flag and what
  \<^verbatim>\<open>close()\<close> does.
\<close>

record handle =
  status :: int
  h_headers :: "(string \<times> string) list"
  chunks :: "bytes list"
  stream_error :: "exn option"
  release_result :: "exn option"

record temp_session =
  s_closed :: bool
  close_result :: "exn option"

definition read :: "handle \<Rightarrow> exn + bytes" where
  "read h = (case stream_error h of None \<Rightarrow> Inr (concat (chunks h)) | Some e \<Rightarrow> Inl e)"

text \<open>
  \<^verbatim>\<open>ClientResponse.release()\<close> when it succeeds: the payload not yet delivered is dropped, and
  reading from the response raises \<^verbatim>\<open>ClientConnectionError("Connection closed")\<close> from then
  on, unless the payload had failed already.
\<close>

definition released :: "handle \<Rightarrow> handle" where
  "released h =
     h\<lparr>chunks := [],
       stream_error :=
         (case stream_error h of
            None \<Rightarrow> Some (ClientError ''Connection closed'')
          | Some e \<Rightarrow> Some e)\<rparr>"

text \<open>
  Everything outside the module: the builtin \<^verbatim>\<open>float\<close>, \<^verbatim>\<open>json.loads\<close>, the two checks of
  \<^verbatim>\<open>urllib.parse\<close> that rest on \<^verbatim>\<open>ipaddress\<close>, \<^verbatim>\<open>re\<close> and \<^verbatim>\<open>unicodedata\<close> (the exception
  each raises, if any), whether \<^verbatim>\<open>aiohttp_socks\<close> could be imported, and the outcome of each
  engine call.
\<close>

record env =
  float_conv :: "pyobj \<Rightarrow> exn + pyfloat"
  json_loads :: "unicode \<Rightarrow> exn + json"
  check_bracketed_host :: "string \<Rightarrow> exn option"
  checknetloc :: "string \<Rightarrow> exn option"
  ProxyConnector :: bool
  from_url :: "string \<Rightarrow> exn option"
  session_request :: "call \<Rightarrow> exn + handle"
  temp_session_close :: "exn option"

section \<open>Proxy choice for one URL\<close>

text \<open>
  \<^verbatim>\<open>urllib.parse.urlparse(url).scheme\<close>, as \<^verbatim>\<open>urlsplit\<close> of CPython 3.11 computes it, with
  the exceptions it raises. Leading C0 controls and spaces are stripped and tab, CR and LF
  are removed. The text before the first colon is the scheme when it is non-empty, starts
  with an ASCII letter and consists of letters, digits, \<^verbatim>\<open>+\<close>, \<^verbatim>\<open>-\<close> and \<^verbatim>\<open>.\<close>; it is
  lower-cased and the rest of the URL starts after the colon. When the rest starts with
  \<^verbatim>\<open>//\<close>, the network location runs up to the first of \<^verbatim>\<open>/\<close>, \<^verbatim>\<open>?\<close> and \<^verbatim>\<open>#\<close>: a square
  bracket in it without its partner raises \<^verbatim>\<open>ValueError("Invalid IPv6 URL")\<close>, and a
  bracketed host is handed to \<^verbatim>\<open>_check_bracketed_host\<close>. A network location that is not
  empty and not pure ASCII is handed to the NFKC check of \<^verbatim>\<open>_checknetloc\<close>.
\<close>

definition is_ascii_alpha :: "char \<Rightarrow> bool" where
  "is_ascii_alpha c =
     ((65 \<le> (of_char c :: nat) \<and> (of_char c :: nat) \<le> 90) \<or>
      (97 \<le> (of_char c :: nat) \<and> (of_char c :: nat) \<le> 122))"

definition is_scheme_char :: "char \<Rightarrow> bool" where
  "is_scheme_char c =
     (is_ascii_alpha c \<or> (48 \<le> (of_char c :: nat) \<and> (of_char c :: nat) \<le> 57) \<or>
      c = CHR ''+'' \<or> c = CHR ''-'' \<or> c = CHR ''.'')"

definition is_ascii :: "string \<Rightarrow> bool" where
  "is_ascii s = list_all (\<lambda>c. (of_char c :: nat) < 128) s"

text \<open>\<^verbatim>\<open>url.lstrip(_WHATWG_C0_CONTROL_OR_SPACE)\<close> and the removal of tab, CR and LF.\<close>

definition clean_url :: "string \<Rightarrow> string" where
  "clean_url url0 =
     filter (\<lambda>c. c \<noteq> CHR 0x09 \<and> c \<noteq> CHR 0x0D \<and> c \<noteq> CHR 0x0A)
       (dropWhile (\<lambda>c. (of_char c :: nat) \<le> 32) url0)"

text \<open>The scheme (empty when there is none) and the rest of the URL.\<close>

definition split_scheme :: "string \<Rightarrow> string \<times> string" where
  "split_scheme url =
     (let pre = takeWhile (\<lambda>c. c \<noteq> CHR '':'') url
      in if pre \<noteq> [] \<and> pre \<noteq> url \<and> is_ascii_alpha (hd url) \<and> list_all is_scheme_char pre
         then (lower pre, drop (length pre + 1) url)
         else ([], url))"

text \<open>\<^verbatim>\<open>_splitnetloc(url, 2)[0]\<close> and \<^verbatim>\<open>netloc.partition('[')[2].partition(']')[0]\<close>.\<close>

definition splitnetloc :: "string \<Rightarrow> string" where
  "splitnetloc url =
     takeWhile (\<lambda>c. c \<noteq> CHR ''/'' \<and> c \<noteq> CHR ''?'' \<and> c \<noteq> CHR ''#'') (drop 2 url)"

definition bracketed_host :: "string \<Rightarrow> string" where
  "bracketed_host netloc =
     takeWhile (\<lambda>c. c \<noteq> CHR '']'') (tl (dropWhile (\<lambda>c. c \<noteq> CHR ''['') netloc))"

definition urlparse_scheme :: "env \<Rightarrow> string \<Rightarrow> exn + string" where
  "urlparse_scheme E url0 =
     (case split_scheme (clean_url url0) of
        (scheme, url) \<Rightarrow>
          (let netloc = (if take 2 url = ''//'' then splitnetloc url else [])
           in if (CHR ''['' \<in> set netloc \<and> CHR '']'' \<notin> set netloc) \<or>
                 (CHR '']'' \<in> set netloc \<and> CHR ''['' \<notin> set netloc)
              then Inl (ValueError ''Invalid IPv6 URL'')
              else (case (if CHR ''['' \<in> set netloc \<and> CHR '']'' \<in> set netloc
                          then check_bracketed_host E (bracketed_host netloc) else None) of
                      Some e \<Rightarrow> Inl e
                    | None \<Rightarrow>
                        (case (if netloc = [] \<or> is_ascii netloc then None
                               else checknetloc E netloc) of
                           Some e \<Rightarrow> Inl e
                         | None \<Rightarrow> Inr scheme))))"

text \<open>\<^verbatim>\<open>(scheme or "https").lower()\<close>\<close>

definition scheme_or_https :: "string \<Rightarrow> string" where
  "scheme_or_https s = lower (if s \<noteq> [] then s else ''https'')"

text \<open>
  \<^verbatim>\<open>_pick_proxy\<close>: without a map, or with an empty one, the URL is not parsed at all.
\<close>

definition pick_proxy ::
  "env \<Rightarrow> string \<Rightarrow> (string \<times> string) list option \<Rightarrow> exn + string option" where
  "pick_proxy E url proxies =
     (case proxies of
        None \<Rightarrow> Inr None
      | Some m \<Rightarrow>
          if m = [] then Inr None
          else (case urlparse_scheme E url of
                  Inl e \<Rightarrow> Inl e
                | Inr s \<Rightarrow>
                    Inr (or_else (map_of m (scheme_or_https s))
                           (or_else (map_of m ''https'') (map_of m ''http'')))))"

section \<open>Response wrapper\<close>

text \<open>
  \<^verbatim>\<open>_AiohttpResponse\<close>. \<open>calls\<close> lists the engine calls made through the wrapper, oldest
  first. A method returns its result, or the exception it raises, together with the
  wrapper after the call.
\<close>

record aiohttp_response =
  response :: handle
  body :: "bytes option"
  closed :: bool
  owned_session :: "temp_session option"
  status_code :: int
  headers :: "(string \<times> string) list"
  calls :: "event list"

definition new_response ::
  "handle \<Rightarrow> bytes option \<Rightarrow> temp_session option \<Rightarrow> aiohttp_response" where
  "new_response resp b owner =
     \<lparr>response = resp, body = b, closed = False, owned_session = owner,
      status_code = status resp, headers = h_headers resp, calls = []\<rparr>"

text \<open>\<^verbatim>\<open>try: call() except Exception: pass\<close>\<close>

definition except_pass :: "exn option \<Rightarrow> exn option" where
  "except_pass outcome = (case outcome of None \<Rightarrow> None | Some e \<Rightarrow> None)"

definition close :: "aiohttp_response \<Rightarrow> (exn + unit) \<times> aiohttp_response" where
  "close r =
     (if closed r then (Inr (), r)
      else
        (let r1 = r\<lparr>closed := True\<rparr>;
             r2 = r1\<lparr>calls := calls r1 @ [EvRelease],
                     response :=
                       (case release_result (response r1) of
                          None \<Rightarrow> released (response r1)
                        | Some e \<Rightarrow> response r1)\<rparr>
         in case except_pass (release_result (response r1)) of
              Some e \<Rightarrow> (Inl e, r2)
            | None \<Rightarrow>
                (case owned_session r2 of
                   None \<Rightarrow> (Inr (), r2)
                 | Some s \<Rightarrow>
                     if \<not> s_closed s then
                       (let r3 = r2\<lparr>calls := calls r2 @ [EvSessionClose],
                                     owned_session :=
                                       Some (s\<lparr>s_closed := (close_result s = None)\<rparr>)\<rparr>
                        in case except_pass (close_result s) of
                             Some e \<Rightarrow> (Inl e, r3)
                           | None \<Rightarrow> (Inr (), r3))
                     else (Inr (), r2))))"

definition aexit :: "aiohttp_response \<Rightarrow> (exn + unit) \<times> aiohttp_response" where
  "aexit r = close r"

definition read_body :: "aiohttp_response \<Rightarrow> (exn + bytes) \<times> aiohttp_response" where
  "read_body r =
     (case body r of
        Some b \<Rightarrow> (Inr b, r)
      | None \<Rightarrow>
          (let r1 = r\<lparr>calls := calls r @ [EvRead]\<rparr> in
           case read (response r1) of
             Inl e \<Rightarrow> (Inl e, r1)
           | Inr b \<Rightarrow>
               (let r2 = r1\<lparr>body := Some b, response := (response r1)\<lparr>chunks := []\<rparr>\<rparr> in
                case close r2 of
                  (Inl e, r3) \<Rightarrow> (Inl e, r3)
                | (Inr u, r3) \<Rightarrow> (Inr b, r3))))"

definition content :: "aiohttp_response \<Rightarrow> bytes" where
  "content r = (case body r of None \<Rightarrow> [] | Some b \<Rightarrow> b)"

definition text_method :: "aiohttp_response \<Rightarrow> (exn + unicode) \<times> aiohttp_response" where
  "text_method r =
     (case read_body r of
        (Inl e, r1) \<Rightarrow> (Inl e, r1)
      | (Inr b, r1) \<Rightarrow> (Inr (decode b), r1))"

definition json_method :: "env \<Rightarrow> aiohttp_response \<Rightarrow> exn + json" where
  "json_method E r =
     (case body r of
        None \<Rightarrow> Inl (RuntimeError ''JSON body not available yet. Read stream content first.'')
      | Some b \<Rightarrow> if b = [] then Inr (JDict []) else json_loads E (decode b))"

text \<open>
  The two asynchronous generators. The consumer either runs the generator to its end
  (\<open>None\<close>), or takes \<open>k\<close> items and then abandons it (\<open>Some k\<close>); asked for more items
  than there are, the generator runs to its end as well. The result is the list of items
  yielded, the exception the generator ended with, and the wrapper afterwards.

  An abandoned generator stays suspended at its \<^verbatim>\<open>yield\<close>: the \<^verbatim>\<open>finally\<close> block has not
  run, the response is open, and the engine holds the chunks not yet pulled. The block
  runs when the generator is finalised (by \<^verbatim>\<open>aclose()\<close>, or by the hook of the event loop
  once the generator is garbage collected), which never happens while the caller keeps a
  reference to it. A generator a consumer takes nothing from is never started.
\<close>

definition consume :: "nat option \<Rightarrow> 'a list \<Rightarrow> 'a list" where
  "consume taken items = (case taken of None \<Rightarrow> items | Some k \<Rightarrow> take k items)"

definition finally_close ::
  "'a list \<times> exn option \<Rightarrow> aiohttp_response \<Rightarrow> ('a list \<times> exn option) \<times> aiohttp_response" where
  "finally_close out r =
     (case close r of
        (Inl e, r1) \<Rightarrow> ((fst out, Some e), r1)
      | (Inr u, r1) \<Rightarrow> (out, r1))"

text \<open>
  The \<^verbatim>\<open>try: async for chunk in self._response.content.iter_chunked(n) ... finally: await
  self.close()\<close> of both generators: \<open>items\<close> and \<open>err\<close> are what the loop yields from the
  chunks the engine holds and how it ends, \<open>left k\<close> the chunks the engine still holds
  when the \<open>k\<close>-th item is yielded.
\<close>

definition stream_generator ::
  "nat \<Rightarrow> nat option \<Rightarrow> 'a list \<Rightarrow> exn option \<Rightarrow> (nat \<Rightarrow> bytes list) \<Rightarrow> aiohttp_response \<Rightarrow>
     ('a list \<times> exn option) \<times> aiohttp_response" where
  "stream_generator n taken items err left r =
     (let h = response r;
          r1 = r\<lparr>calls := calls r @ [EvIterChunked n]\<rparr>
      in case taken of
           None \<Rightarrow> finally_close (items, err) (r1\<lparr>response := h\<lparr>chunks := []\<rparr>\<rparr>)
         | Some k \<Rightarrow>
             if k = 0 then (([], None), r)
             else if k \<le> length items
             then ((take k items, None), r1\<lparr>response := h\<lparr>chunks := left k\<rparr>\<rparr>)
             else finally_close (items, err) (r1\<lparr>response := h\<lparr>chunks := []\<rparr>\<rparr>))"

text \<open>The chunks not yet pulled when \<^verbatim>\<open>aiter_content\<close> yields its \<open>k\<close>-th item.\<close>

fun after_content :: "nat \<Rightarrow> bytes list \<Rightarrow> bytes list" where
  "after_content k [] = []"
| "after_content k (chunk # rest) =
     (if chunk = [] then after_content k rest
      else if k \<le> 1 then rest
      else after_content (k - 1) rest)"

definition aiter_content ::
  "nat \<Rightarrow> nat option \<Rightarrow> aiohttp_response \<Rightarrow> (bytes list \<times> exn option) \<times> aiohttp_response" where
  "aiter_content chunk_size taken r =
     (case body r of
        Some b \<Rightarrow> ((consume taken (if b \<noteq> [] then [b] else []), None), r)
      | None \<Rightarrow>
          (let h = response r
           in stream_generator chunk_size taken
                (filter (\<lambda>chunk. chunk \<noteq> []) (chunks h)) (stream_error h)
                (\<lambda>k. after_content k (chunks h)) r))"

text \<open>\<^verbatim>\<open>raw, buf = buf.split(b"\n", 1)\<close> when a line feed is in \<open>buf\<close>.\<close>

definition split_lf :: "bytes \<Rightarrow> bytes \<times> bytes" where
  "split_lf buf = (takeWhile (\<lambda>c. c \<noteq> LF) buf, tl (dropWhile (\<lambda>c. c \<noteq> LF) buf))"

definition line_of :: "bytes \<Rightarrow> unicode" where
  "line_of raw = rstrip_cr (decode raw)"

text \<open>The inner \<^verbatim>\<open>while b"\n" in buf\<close>: the lines yielded and the buffer left.\<close>

function drain :: "bytes \<Rightarrow> unicode list \<times> bytes" where
  "drain buf =
     (if LF \<in> set buf
      then (case drain (snd (split_lf buf)) of
              (ls, buf') \<Rightarrow> (line_of (fst (split_lf buf)) # ls, buf'))
      else ([], buf))"
  by pat_completeness auto
termination
proof (relation "measure length")
  show "wf (measure length)" by simp
next
  fix buf :: bytes
  assume "LF \<in> set buf"
  then have "dropWhile (\<lambda>c. c \<noteq> LF) buf \<noteq> []" by simp
  then have "length (tl (dropWhile (\<lambda>c. c \<noteq> LF) buf)) < length (dropWhile (\<lambda>c. c \<noteq> LF) buf)"
    by (cases "dropWhile (\<lambda>c. c \<noteq> LF) buf") auto
  also have "\<dots> \<le> length buf" by (rule length_dropWhile_le)
  finally have "length (snd (split_lf buf)) < length buf" by (simp add: split_lf_def)
  then show "(snd (split_lf buf), buf) \<in> measure length" by simp
qed

declare drain.simps [simp del]

text \<open>The \<^verbatim>\<open>async for chunk\<close> loop of \<^verbatim>\<open>aiter_lines\<close>, from the buffer \<open>buf\<close>.\<close>

fun lines_loop :: "bytes \<Rightarrow> bytes list \<Rightarrow> unicode list \<times> bytes" where
  "lines_loop buf [] = ([], buf)"
| "lines_loop buf (chunk # rest) =
     (if chunk = [] then lines_loop buf rest
      else (case drain (buf @ chunk) of
              (ls, buf') \<Rightarrow>
                (case lines_loop buf' rest of (ls', buf'') \<Rightarrow> (ls @ ls', buf''))))"

definition stream_lines :: "bytes list \<Rightarrow> exn option \<Rightarrow> unicode list \<times> exn option" where
  "stream_lines cs err =
     (case lines_loop [] cs of
        (ls, buf) \<Rightarrow>
          (case err of
             Some e \<Rightarrow> (ls, Some e)
           | None \<Rightarrow> (if buf \<noteq> [] then ls @ [line_of buf] else ls, None)))"

text \<open>The chunks not yet pulled when \<^verbatim>\<open>aiter_lines\<close> yields its \<open>k\<close>-th line.\<close>

fun after_lines :: "nat \<Rightarrow> bytes \<Rightarrow> bytes list \<Rightarrow> bytes list" where
  "after_lines k buf [] = []"
| "after_lines k buf (chunk # rest) =
     (if chunk = [] then after_lines k buf rest
      else (case drain (buf @ chunk) of
              (ls, buf') \<Rightarrow>
                if k \<le> length ls then rest else after_lines (k - length ls) buf' rest))"

definition aiter_lines ::
  "nat option \<Rightarrow> aiohttp_response \<Rightarrow> (unicode list \<times> exn option) \<times> aiohttp_response" where
  "aiter_lines taken r =
     (case body r of
        Some b \<Rightarrow> ((consume taken (splitlines (decode b)), None), r)
      | None \<Rightarrow>
          (let h = response r;
               out = stream_lines (chunks h) (stream_error h)
           in stream_generator 8192 taken (fst out) (snd out)
                (\<lambda>k. after_lines k [] (chunks h)) r))"

section \<open>Fallback session\<close>

text \<open>
  Keyword arguments: \<open>None\<close> is an absent key, and \<open>pop\<close> is
  \<^verbatim>\<open>kwargs.pop(key, default)\<close>. \<open>k_extra\<close> holds the keywords the module passes
  through to the engine untouched.
\<close>

definition pop :: "'a option \<Rightarrow> 'a \<Rightarrow> 'a" where
  "pop v d = (case v of None \<Rightarrow> d | Some x \<Rightarrow> x)"

record session_kwargs =
  i_headers :: "pyobj option"
  i_cookies :: "pyobj option"
  i_timeout :: "pyobj option"
  i_verify :: "pyobj option"
  i_proxy :: "pyobj option"
  i_proxies :: "pyval option"
  i_impersonate :: "pyobj option"
  i_http_version :: "pyobj option"

record request_kwargs =
  k_stream :: "pyobj option"
  k_allow_redirects :: "pyobj option"
  k_timeout :: "pyobj option"
  k_verify :: "pyobj option"
  k_proxy :: "pyobj option"
  k_proxies :: "pyval option"
  k_impersonate :: "pyobj option"
  k_http_version :: "pyobj option"
  k_extra :: "(string \<times> pyobj) list"

text \<open>
  \<^verbatim>\<open>_AiohttpAsyncSession\<close>: the default proxy map, and the persistent
  \<^verbatim>\<open>aiohttp.ClientSession\<close> given by the arguments it was built with.
\<close>

record session =
  default_proxies :: "(string \<times> string) list option"
  s_headers :: pyobj
  s_cookies :: pyobj
  s_timeout :: "pyfloat option"
  s_ssl :: ssl_setting

definition to_timeout :: "env \<Rightarrow> pyobj \<Rightarrow> pyfloat option" where
  "to_timeout E v =
     (if v = PNone then None
      else (case float_conv E v of Inr f \<Rightarrow> Some f | Inl e \<Rightarrow> None))"

text \<open>\<^verbatim>\<open>proxy_map["http"] = p; proxy_map["https"] = p\<close>\<close>

definition set_both :: "string \<Rightarrow> (string \<times> string) list \<Rightarrow> (string \<times> string) list" where
  "set_both p m = AList.update ''https'' p (AList.update ''http'' p m)"

text \<open>\<^verbatim>\<open>d.update(e)\<close>\<close>

definition dict_update ::
  "(string \<times> string) list \<Rightarrow> (string \<times> string) list \<Rightarrow> (string \<times> string) list" where
  "dict_update d e = fold (\<lambda>(k, v). AList.update k v) e d"

definition init :: "env \<Rightarrow> session_kwargs \<Rightarrow> session" where
  "init E kw =
     (let headers = pop (i_headers kw) PNone;
          cookies = pop (i_cookies kw) PNone;
          timeout = to_timeout E (pop (i_timeout kw) PNone);
          verify = pop (i_verify kw) (PBool True);
          proxy = pop (i_proxy kw) PNone;
          proxies = pop (i_proxies kw) (Atom PNone);
          proxy_map = normalize_proxies proxies;
          proxy_map' =
            (if truthy proxy
             then Some (set_both (py_str proxy) (case proxy_map of None \<Rightarrow> [] | Some m \<Rightarrow> m))
             else proxy_map)
      in \<lparr>default_proxies = proxy_map', s_headers = headers, s_cookies = cookies,
          s_timeout = timeout, s_ssl = ssl_for_verify verify\<rparr>)"

text \<open>Lines 214 to 220 of \<^verbatim>\<open>request\<close>: the proxy map of one call.\<close>

definition effective_proxies :: "session \<Rightarrow> pyval \<Rightarrow> pyobj \<Rightarrow> (string \<times> string) list" where
  "effective_proxies S proxies proxy =
     (let proxy_map = (case default_proxies S of None \<Rightarrow> [] | Some m \<Rightarrow> m);
          extra = normalize_proxies proxies;
          proxy_map' = (case extra of None \<Rightarrow> proxy_map | Some e \<Rightarrow> dict_update proxy_map e)
      in if truthy proxy then set_both (py_str proxy) proxy_map' else proxy_map')"

definition use_socks :: "string option \<Rightarrow> bool" where
  "use_socks proxy_url =
     (case proxy_url of None \<Rightarrow> False | Some p \<Rightarrow> p \<noteq> [] \<and> startswith (lower p) ''socks'')"

text \<open>Lines 264 to 270: wrap the engine's response, reading the body unless streaming.\<close>

definition finish ::
  "bool \<Rightarrow> handle \<Rightarrow> temp_session option \<Rightarrow> (exn + aiohttp_response) \<times> event list" where
  "finish stream resp owner =
     (if stream then (Inr (new_response resp None owner), [])
      else (case read resp of
              Inl e \<Rightarrow> (Inl e, [EvRead])
            | Inr b \<Rightarrow>
                (case close (new_response (resp\<lparr>chunks := []\<rparr>) (Some b) owner) of
                   (Inl e, wrapped) \<Rightarrow> (Inl e, EvRead # calls wrapped)
                 | (Inr u, wrapped) \<Rightarrow> (Inr wrapped, EvRead # calls wrapped))))"

text \<open>
  Lines 235 to 270, the body of the \<^verbatim>\<open>try\<close>: \<open>socks\<close> is the proxy URL when the SOCKS
  path is taken. The result comes with the engine calls made, oldest first.
\<close>

definition request_try ::
  "env \<Rightarrow> bool \<Rightarrow> string option \<Rightarrow> string option \<Rightarrow> call \<Rightarrow>
     (exn + aiohttp_response) \<times> event list" where
  "request_try E stream socks proxy_url c0 =
     (case socks of
        Some p \<Rightarrow>
          (case from_url E p of
             Some e \<Rightarrow> (Inl e, [EvConnector p])
           | None \<Rightarrow>
               (let c = c0\<lparr>c_target := Temporary p (c_timeout c0), c_proxy := None\<rparr>;
                    evs = [EvConnector p, EvSessionOpen, EvRequest c]
                in case session_request E c of
                     Inl e \<Rightarrow>
                       (case temp_session_close E of
                          Some e' \<Rightarrow> (Inl e', evs @ [EvSessionClose])
                        | None \<Rightarrow> (Inl e, evs @ [EvSessionClose]))
                   | Inr resp \<Rightarrow>
                       (case finish stream resp
                               (Some \<lparr>s_closed = False, close_result = temp_session_close E\<rparr>) of
                          (res, evs') \<Rightarrow> (res, evs @ evs'))))
      | None \<Rightarrow>
          (let c = c0\<lparr>c_target := Persistent, c_proxy := proxy_url\<rparr> in
           case session_request E c of
             Inl e \<Rightarrow> (Inl e, [EvRequest c])
           | Inr resp \<Rightarrow>
               (case finish stream resp None of
                  (res, evs') \<Rightarrow> (res, EvRequest c # evs'))))"

text \<open>Lines 271 and 272: \<^verbatim>\<open>except (aiohttp.ClientError, asyncio.TimeoutError) as e\<close>.\<close>

definition reraise :: "exn \<Rightarrow> exn" where
  "reraise e =
     (case e of
        ClientError m \<Rightarrow> RequestsError (exn_str e)
      | TimeoutError m \<Rightarrow> RequestsError (exn_str e)
      | _ \<Rightarrow> e)"

text \<open>
  Line 221 of \<^verbatim>\<open>request\<close>: the proxy URL resolved for one call, or the \<^verbatim>\<open>ValueError\<close> of
  \<^verbatim>\<open>urlparse\<close>, which nothing in \<^verbatim>\<open>request\<close> catches.
\<close>

definition proxy_url_of ::
  "env \<Rightarrow> session \<Rightarrow> string \<Rightarrow> request_kwargs \<Rightarrow> exn + string option" where
  "proxy_url_of E S url kw =
     pick_proxy E url
       (Some (effective_proxies S (pop (k_proxies kw) (Atom PNone)) (pop (k_proxy kw) PNone)))"

text \<open>Lines 223 to 272 of \<^verbatim>\<open>request\<close>, once the proxy URL is known.\<close>

definition request_via ::
  "env \<Rightarrow> string \<Rightarrow> string \<Rightarrow> request_kwargs \<Rightarrow> string option \<Rightarrow>
     (exn + aiohttp_response) \<times> event list" where
  "request_via E meth url kw proxy_url =
     (let stream = truthy (pop (k_stream kw) (PBool False));
          allow_redirects = pop (k_allow_redirects kw) (PBool True);
          timeout = to_timeout E (pop (k_timeout kw) PNone);
          verify = pop (k_verify kw) PNone;
          ssl = (if verify \<noteq> PNone then Some (ssl_for_verify verify) else None);
          use_socks_proxy = use_socks proxy_url
      in if use_socks_proxy \<and> \<not> ProxyConnector E
         then (Inl (RequestsError ''SOCKS proxy requested but aiohttp-socks is not installed''), [])
         else (case request_try E stream (if use_socks_proxy then proxy_url else None) proxy_url
                      \<lparr>c_target = Persistent, c_method = upper meth, c_url = url,
                       c_allow_redirects = allow_redirects, c_proxy = None,
                       c_timeout = timeout, c_ssl = ssl, c_extra = k_extra kw\<rparr> of
                 (Inl e, evs) \<Rightarrow> (Inl (reraise e), evs)
               | (Inr r, evs) \<Rightarrow> (Inr r, evs)))"

text \<open>\<^verbatim>\<open>request\<close>: no engine call has been made when line 221 raises.\<close>

definition request ::
  "env \<Rightarrow> session \<Rightarrow> string \<Rightarrow> string \<Rightarrow> request_kwargs \<Rightarrow>
     (exn + aiohttp_response) \<times> event list" where
  "request E S meth url kw =
     (case proxy_url_of E S url kw of
        Inl e \<Rightarrow> (Inl e, [])
      | Inr proxy_url \<Rightarrow> request_via E meth url kw proxy_url)"

definition get :: "env \<Rightarrow> session \<Rightarrow> string \<Rightarrow> request_kwargs \<Rightarrow>
     (exn + aiohttp_response) \<times> event list" where
  "get E S url kw = request E S ''GET'' url kw"

definition post :: "env \<Rightarrow> session \<Rightarrow> string \<Rightarrow> request_kwargs \<Rightarrow>
     (exn + aiohttp_response) \<times> event list" where
  "post E S url kw = request E S ''POST'' url kw"

definition delete :: "env \<Rightarrow> session \<Rightarrow> string \<Rightarrow> request_kwargs \<Rightarrow>
     (exn + aiohttp_response) \<times> event list" where
  "delete E S url kw = request E S ''DELETE'' url kw"

section \<open>Notions used to state the properties\<close>

text \<open>A proxy map as the resolver builds it has no empty entry.\<close>

definition nonempty_entries :: "(string \<times> string) list \<Rightarrow> bool" where
  "nonempty_entries m = list_all (\<lambda>(k, p). p \<noteq> []) m"

text \<open>
  The entries of a \<^verbatim>\<open>dict\<close> that \<^verbatim>\<open>_normalize_proxies\<close> is said to keep: truthy values
  under a key that is \<^verbatim>\<open>http\<close> or \<^verbatim>\<open>https\<close> in lower case, each as
  (lower-cased key, value as a string), in the order of the \<^verbatim>\<open>dict\<close>.
\<close>

definition kept_entries :: "(pyobj \<times> pyobj) list \<Rightarrow> (string \<times> string) list" where
  "kept_entries kvs =
     map (\<lambda>(key, proxy). (lower (py_str key), py_str proxy))
       (filter (\<lambda>(key, proxy). truthy proxy \<and>
                  (lower (py_str key) = ''http'' \<or> lower (py_str key) = ''https'')) kvs)"

definition scheme_keys_only :: "(string \<times> string) list \<Rightarrow> bool" where
  "scheme_keys_only m = list_all (\<lambda>(k, p). k = ''http'' \<or> k = ''https'') m"

text \<open>An environment and empty keyword arguments, for concrete instances.\<close>

definition example_env :: env where
  "example_env =
     \<lparr>float_conv =
        (\<lambda>v. case v of
                PInt i \<Rightarrow> Inr (Finite i 0)
              | _ \<Rightarrow> Inl (OtherError ''ValueError'' ''could not convert to float'')),
      json_loads = (\<lambda>t. Inl (OtherError ''JSONDecodeError'' ''Expecting value'')),
      check_bracketed_host =
        (\<lambda>h. if h = ''::1'' then None
              else Some (ValueError ''does not appear to be an IPv4 or IPv6 address'')),
      checknetloc = (\<lambda>n. None),
      ProxyConnector = False,
      from_url = (\<lambda>p. None),
      session_request =
        (\<lambda>c. Inr \<lparr>status = 200, h_headers = [], chunks = [''ok''],
                    stream_error = None, release_result = None\<rparr>),
      temp_session_close = None\<rparr>"

definition no_session_kwargs :: session_kwargs where
  "no_session_kwargs =
     \<lparr>i_headers = None, i_cookies = None, i_timeout = None, i_verify = None,
      i_proxy = None, i_proxies = None, i_impersonate = None, i_http_version = None\<rparr>"

definition no_request_kwargs :: request_kwargs where
  "no_request_kwargs =
     \<lparr>k_stream = None, k_allow_redirects = None, k_timeout = None, k_verify = None,
      k_proxy = None, k_proxies = None, k_impersonate = None, k_http_version = None,
      k_extra = []\<rparr>"

text \<open>
  The exceptions line 271 catches, and the exceptions the engine of an environment can
  raise at all: from \<^verbatim>\<open>ProxyConnector.from_url\<close>, from \<^verbatim>\<open>ClientSession.request\<close>, from
  closing the temporary session, or from reading the payload of a response it returned.
\<close>

definition is_transport :: "exn \<Rightarrow> bool" where
  "is_transport e = (case e of ClientError m \<Rightarrow> True | TimeoutError m \<Rightarrow> True | _ \<Rightarrow> False)"

definition engine_raises :: "env \<Rightarrow> exn \<Rightarrow> bool" where
  "engine_raises E e \<longleftrightarrow>
     (\<exists>p. from_url E p = Some e) \<or> (\<exists>c. session_request E c = Inl e) \<or>
     temp_session_close E = Some e \<or>
     (\<exists>c h. session_request E c = Inr h \<and> stream_error h = Some e)"

definition socks_missing :: exn where
  "socks_missing = RequestsError ''SOCKS proxy requested but aiohttp-socks is not installed''"

text \<open>\<^verbatim>\<open>float(v)\<close> raises.\<close>

definition not_floatable :: "env \<Rightarrow> pyobj \<Rightarrow> bool" where
  "not_floatable E v = (case float_conv E v of Inl e \<Rightarrow> True | Inr f \<Rightarrow> False)"

text \<open>
  The example environment with an engine that fails every request with \<open>e\<close>, and the same
  with \<^verbatim>\<open>aiohttp_socks\<close> installed.
\<close>

definition failing_env :: "exn \<Rightarrow> env" where
  "failing_env e = example_env\<lparr>session_request := (\<lambda>c. Inl e)\<rparr>"

definition socks_failing_env :: "exn \<Rightarrow> env" where
  "socks_failing_env e = example_env\<lparr>ProxyConnector := True, session_request := (\<lambda>c. Inl e)\<rparr>"

text \<open>
  The total timeout a dispatched call runs under, as \<^verbatim>\<open>aiohttp\<close> settles it: the
  \<^verbatim>\<open>timeout=\<close> of the call; else the timeout the session it is issued on was built with,
  which is the session-level one on the persistent session and the per-call one once more
  on a temporary session; else the default of the engine, which a \<^verbatim>\<open>ClientSession\<close> built
  with \<^verbatim>\<open>timeout=None\<close> takes (\<^verbatim>\<open>ClientTimeout(total=300)\<close>).
\<close>

datatype time_limit =
    Total pyfloat
  | EngineDefault

definition timeout_in_force :: "session \<Rightarrow> call \<Rightarrow> time_limit" where
  "timeout_in_force S c =
     (case c_timeout c of
        Some t \<Rightarrow> Total t
      | None \<Rightarrow>
          (case c_target c of
             Persistent \<Rightarrow> (case s_timeout S of Some t \<Rightarrow> Total t | None \<Rightarrow> EngineDefault)
           | Temporary p t \<Rightarrow> (case t of Some t' \<Rightarrow> Total t' | None \<Rightarrow> EngineDefault)))"

text \<open>
  The ways a caller can use a response, each of which may release it: \<^verbatim>\<open>close()\<close>, leaving
  an \<^verbatim>\<open>async with\<close> block, \<^verbatim>\<open>text()\<close>, iterating \<^verbatim>\<open>aiter_content\<close> or \<^verbatim>\<open>aiter_lines\<close>
  to the end or abandoning them early, and the finalisation of a generator abandoned
  earlier, which runs its \<^verbatim>\<open>finally\<close> block. \<open>run\<close> performs a sequence of them, going on
  after an exception as a caller that catches it would.
\<close>

datatype op =
    OpClose
  | OpAexit
  | OpText
  | OpContent nat "nat option"
  | OpLines "nat option"
  | OpFinalize

fun step :: "op \<Rightarrow> aiohttp_response \<Rightarrow> aiohttp_response" where
  "step OpClose r = snd (close r)"
| "step OpAexit r = snd (aexit r)"
| "step OpText r = snd (text_method r)"
| "step (OpContent n k) r = snd (aiter_content n k r)"
| "step (OpLines k) r = snd (aiter_lines k r)"
| "step OpFinalize r = snd (close r)"

definition run :: "op list \<Rightarrow> aiohttp_response \<Rightarrow> aiohttp_response" where
  "run ops r = fold step ops r"

definition releases :: "aiohttp_response \<Rightarrow> nat" where
  "releases r = length (filter (\<lambda>ev. ev = EvRelease) (calls r))"

definition session_closes :: "aiohttp_response \<Rightarrow> nat" where
  "session_closes r = length (filter (\<lambda>ev. ev = EvSessionClose) (calls r))"

text \<open>The example environment with a \<^verbatim>\<open>json.loads\<close> that knows the document \<^verbatim>\<open>[1]\<close>.\<close>

definition json_env :: env where
  "json_env =
     example_env\<lparr>json_loads :=
       (\<lambda>t. if t = text_of ''[1]'' then Inr (JList [JInt 1])
             else Inl (OtherError ''JSONDecodeError'' ''Expecting value''))\<rparr>"

text \<open>
  A live response whose \<^verbatim>\<open>release()\<close> raises, owning a temporary session whose
  \<^verbatim>\<open>close()\<close> raises.
\<close>

definition stubborn_response :: aiohttp_response where
  "stubborn_response =
     new_response
       \<lparr>status = 200, h_headers = [], chunks = [''a'', ''b''], stream_error = None,
        release_result = Some (ClientError ''Connection closed'')\<rparr>
       None
       (Some \<lparr>s_closed = False, close_result = Some (OtherError ''OSError'' ''broken pipe'')\<rparr>)"

text \<open>
  Lines as claim C5 words them: the body is split at each separator, what is left after
  the last separator is a final piece when it is not empty, and one trailing carriage return
  is taken off each decoded piece.
\<close>

fun pieces_acc :: "'a \<Rightarrow> 'a list \<Rightarrow> 'a list \<Rightarrow> 'a list list \<times> 'a list" where
  "pieces_acc sep cur [] = ([], cur)"
| "pieces_acc sep cur (c # cs) =
     (if c = sep
      then (case pieces_acc sep [] cs of (ps, r) \<Rightarrow> (cur # ps, r))
      else pieces_acc sep (cur @ [c]) cs)"

definition pieces :: "'a \<Rightarrow> 'a list \<Rightarrow> 'a list list" where
  "pieces sep xs = (case pieces_acc sep [] xs of (ps, r) \<Rightarrow> if r = [] then ps else ps @ [r])"

definition strip_one_cr :: "unicode \<Rightarrow> unicode" where
  "strip_one_cr t = (if t \<noteq> [] \<and> last t = 13 then butlast t else t)"

definition spec_lines :: "bytes \<Rightarrow> unicode list" where
  "spec_lines b = map (\<lambda>raw. strip_one_cr (decode raw)) (pieces LF b)"

text \<open>
  A text whose only line boundaries are line feeds, each possibly preceded by one carriage
  return, a single carriage return being allowed at the very end as well.
\<close>

fun calm :: "unicode \<Rightarrow> bool" where
  "calm [] = True"
| "calm (c # cs) =
     (if c = 13 then (cs = [] \<or> hd cs = 10) \<and> calm cs
      else (c = 10 \<or> \<not> is_linebreak c) \<and> calm cs)"

text \<open>The two bodies of claim C5, and a live handle delivering given chunks.\<close>

definition body_abc :: bytes where
  "body_abc = ''a'' @ [LF] @ ''b'' @ [LF] @ ''c''"

definition body_crlf :: bytes where
  "body_crlf = ''a'' @ [CR, LF] @ ''b'' @ [CR, LF]"

definition live_handle :: "bytes list \<Rightarrow> handle" where
  "live_handle cs =
     \<lparr>status = 200, h_headers = [], chunks = cs, stream_error = None, release_result = None\<rparr>"

section \<open>SSL context builder: properties\<close>

lemma py_in_verify_tokens:
  "py_in v verify_tokens \<longleftrightarrow> v \<in> set verify_tokens \<or> (\<exists>t s. v = PObj t (Some 0) s)"
  by (cases v) (auto simp: py_in_def verify_tokens_def int_of_bool_def)

text \<open>
  C6. For every \<open>verify\<close> value among the tokens \<^verbatim>\<open>False, 0, "0", "false", "False", "no", "off"\<close>
  the builder returns the disabled-verification marker, and for every value that is not in
  that collection it returns a verified context built from the trust store (never a null
  value). Membership is Python's \<^verbatim>\<open>in\<close>, that is equality with a token: besides the seven
  tokens themselves it holds exactly of the objects that compare equal to \<^verbatim>\<open>0\<close>, such as
  \<^verbatim>\<open>0.0\<close>.
\<close>

theorem ssl_for_verify_tokens:
  "(v \<in> set verify_tokens \<longrightarrow> ssl_for_verify v = SSLDisabled) \<and>
   (\<not> py_in v verify_tokens \<longrightarrow> ssl_for_verify v = SSLContext [SystemDefault, Certifi]) \<and>
   (py_in v verify_tokens \<longleftrightarrow> v \<in> set verify_tokens \<or> (\<exists>t s. v = PObj t (Some 0) s))"
  using py_in_verify_tokens [of v] by (auto simp: ssl_for_verify_def)

theorem ssl_for_verify_tokens_witness:
  "PStr ''off'' \<in> set verify_tokens \<and> ssl_for_verify (PStr ''off'') = SSLDisabled \<and>
   \<not> py_in (PStr ''OFF'') verify_tokens \<and>
   ssl_for_verify (PStr ''OFF'') = SSLContext [SystemDefault, Certifi] \<and>
   \<not> py_in (PBool True) verify_tokens \<and>
   ssl_for_verify (PBool True) = SSLContext [SystemDefault, Certifi] \<and>
   \<not> py_in PNone verify_tokens \<and>
   ssl_for_verify PNone = SSLContext [SystemDefault, Certifi]"
proof -
  have a: "PStr ''off'' \<in> set verify_tokens" by (simp add: verify_tokens_def)
  have b: "\<not> py_in (PStr ''OFF'') verify_tokens" by (simp add: verify_tokens_def py_in_def)
  have c: "\<not> py_in (PBool True) verify_tokens"
    by (simp add: verify_tokens_def py_in_def int_of_bool_def)
  have d: "\<not> py_in PNone verify_tokens" by (simp add: verify_tokens_def py_in_def)
  show ?thesis
    using a b c d ssl_for_verify_tokens [of "PStr ''off''"]
      ssl_for_verify_tokens [of "PStr ''OFF''"]
      ssl_for_verify_tokens [of "PBool True"] ssl_for_verify_tokens [of PNone]
    by blast
qed

section \<open>Proxy resolver: properties\<close>

lemma urlparse_http_host: "urlparse_scheme E ''http://host'' = Inr ''http''"
  by code_simp

lemma urlparse_upper_host: "urlparse_scheme E ''HTTP://host'' = Inr ''http''"
  by code_simp

lemma urlparse_no_scheme: "urlparse_scheme E ''//host/path'' = Inr []"
  by code_simp

lemma urlparse_ws_host: "urlparse_scheme E ''ws://host'' = Inr ''ws''"
  by code_simp

lemma urlparse_open_bracket: "urlparse_scheme E ''http://[::1'' = Inl (ValueError ''Invalid IPv6 URL'')"
  by code_simp

lemma scheme_or_https_simps:
  "scheme_or_https [] = ''https''" "scheme_or_https ''http'' = ''http''"
  "scheme_or_https ''ws'' = ''ws''"
  by code_simp+

lemma pick_proxy_chain:
  assumes "nonempty_entries m" "urlparse_scheme E url = Inr s"
  shows "pick_proxy E url (Some m) =
        Inr (case map_of m (scheme_or_https s) of
               Some p \<Rightarrow> Some p
             | None \<Rightarrow> (case map_of m ''https'' of
                          Some p \<Rightarrow> Some p
                        | None \<Rightarrow> map_of m ''http''))"
  using assms
  by (auto simp: nonempty_entries_def list_all_iff pick_proxy_def or_else_def
      split: option.splits dest!: map_of_SomeD)

lemma pick_proxy_raises:
  "m \<noteq> [] \<Longrightarrow> urlparse_scheme E url = Inl e \<Longrightarrow> pick_proxy E url (Some m) = Inl e"
  by (simp add: pick_proxy_def)

text \<open>
  C8 as stated fails on a URL that \<^verbatim>\<open>urlparse\<close> rejects: with the map \<^verbatim>\<open>{http: P}\<close> and
  the URL \<^verbatim>\<open>http://[::1\<close>, \<open>pick_proxy\<close> raises \<^verbatim>\<open>ValueError("Invalid IPv6 URL")\<close> where
  the claim has it return \<^verbatim>\<open>P\<close>.
\<close>

theorem pick_proxy_order_counterexample:
  "nonempty_entries [(''http'', ''http://p1:8080'')] \<and>
   pick_proxy example_env ''http://[::1'' (Some [(''http'', ''http://p1:8080'')]) =
     Inl (ValueError ''Invalid IPv6 URL'')"
  by code_simp

text \<open>
  C8, as the code has it. For every URL that \<^verbatim>\<open>urlparse\<close> accepts and every proxy map (a
  map without empty entries), \<open>pick_proxy\<close> returns the entry of the URL's lower-cased
  scheme (\<^verbatim>\<open>https\<close> when the URL has none), else the \<^verbatim>\<open>https\<close> entry, else the \<^verbatim>\<open>http\<close>
  entry, else \<^verbatim>\<open>None\<close>; for a URL that \<^verbatim>\<open>urlparse\<close> rejects (\<^verbatim>\<open>http://[::1\<close>, say) and a
  map that is not empty it raises the \<^verbatim>\<open>ValueError\<close> of \<^verbatim>\<open>urlparse\<close>. Without a map, or
  with an empty one, it returns \<^verbatim>\<open>None\<close> for every URL. In particular with the map
  \<^verbatim>\<open>{https: P1}\<close> a request to \<^verbatim>\<open>http://host\<close> resolves to \<^verbatim>\<open>P1\<close>.
\<close>

theorem pick_proxy_order:
  "(nonempty_entries m \<and> urlparse_scheme E url = Inr s \<longrightarrow>
      pick_proxy E url (Some m) =
        Inr (case map_of m (scheme_or_https s) of
               Some p \<Rightarrow> Some p
             | None \<Rightarrow> (case map_of m ''https'' of
                          Some p \<Rightarrow> Some p
                        | None \<Rightarrow> map_of m ''http''))) \<and>
   (m \<noteq> [] \<and> urlparse_scheme E url = Inl e \<longrightarrow> pick_proxy E url (Some m) = Inl e) \<and>
   pick_proxy E url None = Inr None \<and>
   pick_proxy E url (Some []) = Inr None \<and>
   urlparse_scheme E ''http://host'' = Inr ''http'' \<and>
   urlparse_scheme E ''HTTP://host'' = Inr ''http'' \<and>
   urlparse_scheme E ''//host/path'' = Inr [] \<and>
   scheme_or_https [] = ''https'' \<and>
   urlparse_scheme E ''http://[::1'' = Inl (ValueError ''Invalid IPv6 URL'') \<and>
   (P1 \<noteq> [] \<longrightarrow> pick_proxy E ''http://host'' (Some [(''https'', P1)]) = Inr (Some P1))"
proof -
  have 1: "pick_proxy E url None = Inr None" "pick_proxy E url (Some []) = Inr None"
    by (simp_all add: pick_proxy_def)
  have 2: "pick_proxy E ''http://host'' (Some [(''https'', P1)]) = Inr (Some P1)" if "P1 \<noteq> []"
    using that pick_proxy_chain [of "[(''https'', P1)]" E "''http://host''" "''http''"]
    by (simp add: nonempty_entries_def urlparse_http_host scheme_or_https_simps)
  show ?thesis
    using pick_proxy_chain [of m E url s] pick_proxy_raises [of m E url e] 1 2
      urlparse_http_host [of E] urlparse_upper_host [of E] urlparse_no_scheme [of E]
      scheme_or_https_simps(1) urlparse_open_bracket [of E]
    by blast
qed

theorem pick_proxy_order_witness:
  "nonempty_entries [(''https'', ''http://p1:8080'')] \<and>
   urlparse_scheme example_env ''ws://host'' = Inr ''ws'' \<and>
   pick_proxy example_env ''ws://host'' (Some [(''https'', ''http://p1:8080'')]) =
     Inr (Some ''http://p1:8080'') \<and>
   [(''https'', ''http://p1:8080'')] \<noteq> [] \<and>
   urlparse_scheme example_env ''http://[1.2.3.4]/'' =
     Inl (ValueError ''does not appear to be an IPv4 or IPv6 address'') \<and>
   pick_proxy example_env ''http://[1.2.3.4]/'' (Some [(''https'', ''http://p1:8080'')]) =
     Inl (ValueError ''does not appear to be an IPv4 or IPv6 address'') \<and>
   ''http://p1:8080'' \<noteq> [] \<and>
   pick_proxy example_env ''http://host'' (Some [(''https'', ''http://p1:8080'')]) =
     Inr (Some ''http://p1:8080'')"
proof -
  let ?m = "[(''https'', ''http://p1:8080'')]"
  have a: "nonempty_entries ?m"
    by (simp add: nonempty_entries_def)
  have b: "urlparse_scheme example_env ''ws://host'' = Inr ''ws''"
    by (rule urlparse_ws_host)
  have c: "urlparse_scheme example_env ''http://[1.2.3.4]/'' =
     Inl (ValueError ''does not appear to be an IPv4 or IPv6 address'')"
    by code_simp
  have d: "?m \<noteq> []" "''http://p1:8080'' \<noteq> []" by simp_all
  note t1 = pick_proxy_order [where m = ?m and E = example_env and url = "''ws://host''"
      and s = "''ws''" and ?P1.0 = "''http://p1:8080''"]
  note t2 = pick_proxy_order [where m = ?m and E = example_env and url = "''http://[1.2.3.4]/''"
      and e = "ValueError ''does not appear to be an IPv4 or IPv6 address''"
      and ?P1.0 = "''http://p1:8080''"]
  have 1: "pick_proxy example_env ''ws://host'' (Some ?m) =
        Inr (case map_of ?m (scheme_or_https ''ws'') of
               Some p \<Rightarrow> Some p
             | None \<Rightarrow> (case map_of ?m ''https'' of
                          Some p \<Rightarrow> Some p
                        | None \<Rightarrow> map_of ?m ''http''))"
    using a b t1 by blast
  have 1: "pick_proxy example_env ''ws://host'' (Some ?m) = Inr (Some ''http://p1:8080'')"
    unfolding 1 by (simp add: scheme_or_https_simps)
  have 2: "pick_proxy example_env ''http://[1.2.3.4]/'' (Some ?m) =
     Inl (ValueError ''does not appear to be an IPv4 or IPv6 address'')"
    using c d t2 by blast
  have 3: "pick_proxy example_env ''http://host'' (Some ?m) = Inr (Some ''http://p1:8080'')"
    using d t1 by blast
  show ?thesis using a b c d 1 2 3 by blast
qed

lemma map_of_normalize_loop:
  "map_of (normalize_loop kvs out) = map_of out ++ map_of (rev (kept_entries kvs))"
proof (induction kvs out rule: normalize_loop.induct)
  case (1 out)
  then show ?case by (simp add: kept_entries_def)
next
  case (2 key proxy rest out)
  then show ?case
    by (auto simp: kept_entries_def Let_def update_conv' map_add_def fun_eq_iff split: option.splits)
qed

lemma scheme_keys_Nil: "scheme_keys_only []"
  by (simp add: scheme_keys_only_def)

lemma scheme_keys_Cons:
  "scheme_keys_only ((k, p) # m) \<longleftrightarrow> (k = ''http'' \<or> k = ''https'') \<and> scheme_keys_only m"
  by (simp add: scheme_keys_only_def)

lemma scheme_keys_update:
  "scheme_keys_only m \<Longrightarrow> k = ''http'' \<or> k = ''https'' \<Longrightarrow> scheme_keys_only (AList.update k p m)"
  by (induction m) (auto simp: scheme_keys_only_def)

lemma scheme_keys_normalize_loop:
  "scheme_keys_only out \<Longrightarrow> scheme_keys_only (normalize_loop kvs out)"
  by (induction kvs out rule: normalize_loop.induct) (auto simp: Let_def scheme_keys_update)

lemma normalize_loop_Nil_iff:
  "normalize_loop kvs out = [] \<longleftrightarrow> out = [] \<and> kept_entries kvs = []"
  by (induction kvs out rule: normalize_loop.induct) (auto simp: Let_def kept_entries_def)

lemma scheme_keys_normalize:
  "normalize_proxies v = Some m \<Longrightarrow> scheme_keys_only m"
  by (auto simp: normalize_proxies_def Let_def scheme_keys_normalize_loop scheme_keys_Nil
      scheme_keys_Cons split: if_splits pyval.splits pyobj.splits)

lemma scheme_keys_set_both: "scheme_keys_only m \<Longrightarrow> scheme_keys_only (set_both p m)"
  by (simp add: set_both_def scheme_keys_update)

lemma scheme_keys_dict_update:
  "scheme_keys_only d \<Longrightarrow> scheme_keys_only e \<Longrightarrow> scheme_keys_only (dict_update d e)"
  unfolding dict_update_def
proof (induction e arbitrary: d)
  case Nil
  then show ?case by simp
next
  case (Cons a e)
  obtain k p where a: "a = (k, p)" by (cases a)
  from Cons.prems have "scheme_keys_only (AList.update k p d)" "scheme_keys_only e"
    by (auto simp: a scheme_keys_Cons scheme_keys_update)
  then show ?case using Cons.IH by (simp add: a)
qed

lemma scheme_keys_init:
  "default_proxies (init E kw) = Some m \<Longrightarrow> scheme_keys_only m"
  by (auto simp: init_def Let_def scheme_keys_set_both scheme_keys_normalize
      scheme_keys_Nil split: if_splits option.splits)

lemma scheme_keys_effective:
  assumes "\<And>m. default_proxies S = Some m \<Longrightarrow> scheme_keys_only m"
  shows "scheme_keys_only (effective_proxies S proxies proxy)"
proof -
  have d: "scheme_keys_only (case default_proxies S of None \<Rightarrow> [] | Some m \<Rightarrow> m)"
    using assms by (simp add: scheme_keys_Nil split: option.splits)
  have e: "scheme_keys_only
     (case normalize_proxies proxies of None \<Rightarrow> (case default_proxies S of None \<Rightarrow> [] | Some m \<Rightarrow> m)
      | Some e \<Rightarrow> dict_update (case default_proxies S of None \<Rightarrow> [] | Some m \<Rightarrow> m) e)"
    using d by (auto split: option.splits intro: scheme_keys_dict_update scheme_keys_normalize)
  show ?thesis
    using e by (simp add: effective_proxies_def Let_def scheme_keys_set_both)
qed

lemma map_of_dict_update: "map_of (dict_update d e) = map_of d ++ map_of (rev e)"
  unfolding dict_update_def
  by (induction e arbitrary: d) (auto simp: update_conv' fun_eq_iff map_add_def split: option.splits)

lemma map_of_set_both:
  "map_of (set_both p m) = (map_of m)(''http'' \<mapsto> p, ''https'' \<mapsto> p)"
  by (simp add: set_both_def update_conv')

lemma scheme_keys_map_of:
  "scheme_keys_only m \<Longrightarrow> k \<noteq> ''http'' \<Longrightarrow> k \<noteq> ''https'' \<Longrightarrow> map_of m k = None"
  by (induction m) (auto simp: scheme_keys_only_def)

lemma distinct_normalize_loop:
  "distinct (map fst out) \<Longrightarrow> distinct (map fst (normalize_loop kvs out))"
  by (induction kvs out rule: normalize_loop.induct) (auto simp: Let_def distinct_update)

lemma map_of_rev_distinct: "distinct (map fst xs) \<Longrightarrow> map_of (rev xs) = map_of xs"
proof (induction xs)
  case Nil
  then show ?case by simp
next
  case (Cons a xs)
  obtain k v where a: "a = (k, v)" by (cases a)
  from Cons.prems have "map_of xs k = None"
    by (simp add: a map_of_eq_None_iff)
  with Cons show ?case
    by (auto simp: a fun_eq_iff map_add_def split: option.splits)
qed

lemma distinct_normalize:
  "normalize_proxies v = Some m \<Longrightarrow> distinct (map fst m)"
  by (auto simp: normalize_proxies_def Let_def distinct_normalize_loop
      split: if_splits pyval.splits pyobj.splits)

lemma normalize_Dict:
  "normalize_proxies (Dict kvs) =
     (if kept_entries kvs = [] then None else Some (normalize_loop kvs []))"
  using normalize_loop_Nil_iff [of kvs "[]"]
  by (cases kvs) (auto simp: normalize_proxies_def Let_def kept_entries_def)

lemma kept_entries_example: "kept_entries [(PStr ''HTTP'', PStr ''a''), (PStr ''ftp'', PStr ''b''), (PStr ''https'', PStr '''')] = [(''http'', ''a'')]"
  by code_simp
lemma kept_entries_example_none: "kept_entries [(PStr ''ftp'', PStr ''b'')] = []"
  by code_simp

text \<open>
  C9. For every input value \<open>normalize_proxies\<close> returns \<^verbatim>\<open>None\<close> when the value is empty or
  falsy and \<^verbatim>\<open>{http: value, https: value}\<close> when it is a (non-empty) string; of a mapping it
  keeps the truthy values under the keys that are \<^verbatim>\<open>http\<close> or \<^verbatim>\<open>https\<close> in lower case, the
  last such entry of each key, and returns \<^verbatim>\<open>None\<close> when nothing remains. Consequently every
  proxy map the program produces (a result of \<open>normalize_proxies\<close>, the default map of a
  session, the map of a call) has no key other than \<^verbatim>\<open>http\<close> and \<^verbatim>\<open>https\<close>.
\<close>

theorem normalize_proxies_cases:
  "(\<not> truthy_val v \<longrightarrow> normalize_proxies v = None) \<and>
   (s \<noteq> [] \<longrightarrow> normalize_proxies (Atom (PStr s)) = Some [(''http'', s), (''https'', s)]) \<and>
   (kept_entries kvs = [] \<longrightarrow> normalize_proxies (Dict kvs) = None) \<and>
   (kept_entries kvs \<noteq> [] \<longrightarrow>
      (\<exists>out. normalize_proxies (Dict kvs) = Some out \<and> distinct (map fst out) \<and>
             map_of out = map_of (rev (kept_entries kvs)))) \<and>
   (\<forall>m. normalize_proxies v = Some m \<longrightarrow> scheme_keys_only m) \<and>
   (\<forall>m. default_proxies (init E ikw) = Some m \<longrightarrow> scheme_keys_only m) \<and>
   scheme_keys_only (effective_proxies (init E ikw) proxies proxy)"
proof -
  have 1: "\<not> truthy_val v \<longrightarrow> normalize_proxies v = None"
    by (simp add: normalize_proxies_def)
  have 2: "s \<noteq> [] \<longrightarrow> normalize_proxies (Atom (PStr s)) = Some [(''http'', s), (''https'', s)]"
    by (simp add: normalize_proxies_def)
  have 3: "kept_entries kvs = [] \<longrightarrow> normalize_proxies (Dict kvs) = None"
    by (simp add: normalize_Dict)
  have 4: "kept_entries kvs \<noteq> [] \<longrightarrow>
      (\<exists>out. normalize_proxies (Dict kvs) = Some out \<and> distinct (map fst out) \<and>
             map_of out = map_of (rev (kept_entries kvs)))"
    by (simp add: normalize_Dict distinct_normalize_loop map_of_normalize_loop)
  have 5: "\<forall>m. normalize_proxies v = Some m \<longrightarrow> scheme_keys_only m"
    by (simp add: scheme_keys_normalize)
  have 6: "\<forall>m. default_proxies (init E ikw) = Some m \<longrightarrow> scheme_keys_only m"
    by (simp add: scheme_keys_init)
  have 7: "scheme_keys_only (effective_proxies (init E ikw) proxies proxy)"
    by (rule scheme_keys_effective) (rule scheme_keys_init)
  show ?thesis using 1 2 3 4 5 6 7 by blast
qed

theorem normalize_proxies_cases_witness:
  "\<not> truthy_val (Atom (PStr '''')) \<and> normalize_proxies (Atom (PStr '''')) = None \<and>
   ''p'' \<noteq> [] \<and> normalize_proxies (Atom (PStr ''p'')) = Some [(''http'', ''p''), (''https'', ''p'')] \<and>
   kept_entries [(PStr ''ftp'', PStr ''b'')] = [] \<and>
   normalize_proxies (Dict [(PStr ''ftp'', PStr ''b'')]) = None \<and>
   kept_entries [(PStr ''HTTP'', PStr ''a''), (PStr ''ftp'', PStr ''b''), (PStr ''https'', PStr '''')] \<noteq> [] \<and>
   (\<exists>out. normalize_proxies (Dict [(PStr ''HTTP'', PStr ''a''), (PStr ''ftp'', PStr ''b''), (PStr ''https'', PStr '''')]) = Some out \<and>
      map_of out = map_of [(''http'', ''a'')]) \<and>
   scheme_keys_only [(''http'', ''p''), (''https'', ''p'')]"
proof -
  let ?d = "[(PStr ''HTTP'', PStr ''a''), (PStr ''ftp'', PStr ''b''), (PStr ''https'', PStr '''')]"
  have a: "\<not> truthy_val (Atom (PStr ''''))" by simp
  have b: "''p'' \<noteq> []" by simp
  have c: "kept_entries ?d \<noteq> []" by (simp add: kept_entries_example)
  note t1 = normalize_proxies_cases [of "Atom (PStr '''')" "''p''" "[(PStr ''ftp'', PStr ''b'')]"
      example_env no_session_kwargs "Atom PNone" PNone]
  note t2 = normalize_proxies_cases [of "Atom (PStr ''p'')" "''p''" ?d
      example_env no_session_kwargs "Atom PNone" PNone]
  have 1: "normalize_proxies (Atom (PStr '''')) = None" using a t1 by blast
  have 2: "normalize_proxies (Atom (PStr ''p'')) = Some [(''http'', ''p''), (''https'', ''p'')]"
    using b t2 by blast
  have 3: "normalize_proxies (Dict [(PStr ''ftp'', PStr ''b'')]) = None" using kept_entries_example_none t1 by blast
  have 4: "\<exists>out. normalize_proxies (Dict ?d) = Some out \<and> map_of out = map_of (rev (kept_entries ?d))"
    using c t2 by blast
  have 5: "scheme_keys_only [(''http'', ''p''), (''https'', ''p'')]" using 2 t2 by blast
  show ?thesis using a b c kept_entries_example_none 1 2 3 4 5 by (simp add: kept_entries_example)
qed


lemma request_try_events_persistent:
  "\<exists>rest. snd (request_try E stream None purl c0) =
            EvRequest (c0\<lparr>c_target := Persistent, c_proxy := purl\<rparr>) # rest"
  by (simp add: request_try_def Let_def split: sum.splits prod.splits)

lemma request_try_events_socks:
  "\<exists>rest. snd (request_try E stream (Some p) purl c0) = EvConnector p # rest"
  by (simp add: request_try_def Let_def split: sum.splits prod.splits option.splits)

lemma snd_case_reraise:
  "snd (case x of (Inl e, evs) \<Rightarrow> (Inl (reraise e), evs) | (Inr r, evs) \<Rightarrow> (Inr r, evs)) = snd x"
  by (simp split: prod.splits sum.splits)

lemma request_via_events:
  "snd (request_via E meth url kw purl) =
     (if use_socks purl \<and> \<not> ProxyConnector E then []
      else snd (request_try E (truthy (pop (k_stream kw) (PBool False)))
                  (if use_socks purl then purl else None) purl
                  \<lparr>c_target = Persistent, c_method = upper meth, c_url = url,
                   c_allow_redirects = pop (k_allow_redirects kw) (PBool True), c_proxy = None,
                   c_timeout = to_timeout E (pop (k_timeout kw) PNone),
                   c_ssl = (if pop (k_verify kw) PNone \<noteq> PNone
                            then Some (ssl_for_verify (pop (k_verify kw) PNone)) else None),
                   c_extra = k_extra kw\<rparr>))"
  unfolding request_via_def Let_def
  by (simp only: snd_case_reraise if_distrib [of snd] snd_conv)

lemma request_resolved:
  "proxy_url_of E S url kw = Inr purl \<Longrightarrow>
   request E S meth url kw = request_via E meth url kw purl"
  by (simp add: request_def)

lemma request_unresolved:
  "proxy_url_of E S url kw = Inl e \<Longrightarrow> request E S meth url kw = (Inl e, [])"
  by (simp add: request_def)

lemma use_socks_Some: "use_socks x \<Longrightarrow> \<exists>p. x = Some p"
  by (cases x) (auto simp: use_socks_def)

lemma request_via_events_head:
  "(use_socks purl \<and> \<not> ProxyConnector E \<longrightarrow> snd (request_via E meth url kw purl) = []) \<and>
   (use_socks purl \<and> ProxyConnector E \<longrightarrow>
      (\<exists>p rest. purl = Some p \<and> snd (request_via E meth url kw purl) = EvConnector p # rest)) \<and>
   (\<not> use_socks purl \<longrightarrow>
      (\<exists>c rest. snd (request_via E meth url kw purl) = EvRequest c # rest \<and>
                 c_target c = Persistent \<and> c_proxy c = purl))"
proof (intro conjI impI)
  assume "use_socks purl \<and> \<not> ProxyConnector E"
  then show "snd (request_via E meth url kw purl) = []" by (simp add: request_via_events)
next
  assume a: "use_socks purl \<and> ProxyConnector E"
  then obtain p where p: "purl = Some p" using use_socks_Some by blast
  show "\<exists>p rest. purl = Some p \<and> snd (request_via E meth url kw purl) = EvConnector p # rest"
    using a p request_try_events_socks [of E _ p "Some p"] by (simp add: request_via_events)
next
  assume a: "\<not> use_socks purl"
  define c0 where "c0 = \<lparr>c_target = Persistent, c_method = upper meth, c_url = url,
                   c_allow_redirects = pop (k_allow_redirects kw) (PBool True), c_proxy = None,
                   c_timeout = to_timeout E (pop (k_timeout kw) PNone),
                   c_ssl = (if pop (k_verify kw) PNone \<noteq> PNone
                            then Some (ssl_for_verify (pop (k_verify kw) PNone)) else None),
                   c_extra = k_extra kw\<rparr>"
  have e: "snd (request_via E meth url kw purl) =
           snd (request_try E (truthy (pop (k_stream kw) (PBool False))) None purl c0)"
    using a unfolding c0_def by (simp only: request_via_events if_False simp_thms)
  obtain rest where r: "snd (request_try E (truthy (pop (k_stream kw) (PBool False))) None purl c0) =
       EvRequest (c0\<lparr>c_target := Persistent, c_proxy := purl\<rparr>) # rest"
    using request_try_events_persistent by blast
  show "\<exists>c rest. snd (request_via E meth url kw purl) = EvRequest c # rest \<and>
                 c_target c = Persistent \<and> c_proxy c = purl"
    using e r by (intro exI [of _ "c0\<lparr>c_target := Persistent, c_proxy := purl\<rparr>"]
        exI [of _ rest]) simp
qed

lemma effective_proxies_example:
  "effective_proxies
     (init example_env (no_session_kwargs\<lparr>i_proxies := Some (Dict [(PStr ''http'', PStr ''http://d'')])\<rparr>))
     (Dict [(PStr ''https'', PStr ''http://p1'')]) PNone =
     [(''http'', ''http://d''), (''https'', ''http://p1'')]"
  by code_simp

lemma proxy_url_of_example:
  "proxy_url_of example_env
     (init example_env (no_session_kwargs\<lparr>i_proxies := Some (Dict [(PStr ''http'', PStr ''http://d'')])\<rparr>))
     ''https://host''
     (no_request_kwargs\<lparr>k_proxies := Some (Dict [(PStr ''https'', PStr ''http://p1'')])\<rparr>) =
     Inr (Some ''http://p1'')"
  by code_simp

lemma use_socks_example: "\<not> use_socks (Some ''http://p1'')"
  by code_simp

text \<open>
  C7. For every request the proxy map of the call is the default map of the session,
  overlaid with the normalised per-call \<^verbatim>\<open>proxies\<close> (when that gives a map), in which a truthy
  per-call \<^verbatim>\<open>proxy\<close> then overwrites both the \<^verbatim>\<open>http\<close> and the \<^verbatim>\<open>https\<close> key. In particular
  with \<^verbatim>\<open>proxies={"https": P1}\<close> and \<^verbatim>\<open>proxy=P2\<close> the map is \<^verbatim>\<open>{http: P2, https: P2}\<close>, on
  any session. The proxy of the call is picked from this map: when the pick raises (the
  \<^verbatim>\<open>ValueError\<close> of \<^verbatim>\<open>urlparse\<close>) so does the request, with no engine call made; when it
  gives a SOCKS proxy and the connector is available the request starts by building the
  connector for it; when it gives any other result the request is dispatched on the
  persistent session with that \<^verbatim>\<open>proxy=\<close>.
\<close>

theorem effective_proxies_precedence:
  "map_of (effective_proxies S proxies proxy) =
     (if truthy proxy
      then (map_of (case default_proxies S of None \<Rightarrow> [] | Some m \<Rightarrow> m) ++
            map_of (case normalize_proxies proxies of None \<Rightarrow> [] | Some e \<Rightarrow> e))
             (''http'' \<mapsto> py_str proxy, ''https'' \<mapsto> py_str proxy)
      else map_of (case default_proxies S of None \<Rightarrow> [] | Some m \<Rightarrow> m) ++
           map_of (case normalize_proxies proxies of None \<Rightarrow> [] | Some e \<Rightarrow> e)) \<and>
   (P2 \<noteq> [] \<longrightarrow>
      map_of (effective_proxies (init E ikw) (Dict [(PStr ''https'', PStr P1)]) (PStr P2)) =
        [''http'' \<mapsto> P2, ''https'' \<mapsto> P2]) \<and>
   proxy_url_of E S url kw =
     pick_proxy E url
       (Some (effective_proxies S (pop (k_proxies kw) (Atom PNone)) (pop (k_proxy kw) PNone))) \<and>
   (proxy_url_of E S url kw = Inl x \<longrightarrow> request E S meth url kw = (Inl x, [])) \<and>
   (proxy_url_of E S url kw = Inr purl \<and> use_socks purl \<and> ProxyConnector E \<longrightarrow>
      (\<exists>p rest. purl = Some p \<and> snd (request E S meth url kw) = EvConnector p # rest)) \<and>
   (proxy_url_of E S url kw = Inr purl \<and> \<not> use_socks purl \<longrightarrow>
      (\<exists>c rest. snd (request E S meth url kw) = EvRequest c # rest \<and>
                 c_target c = Persistent \<and> c_proxy c = purl))"
proof -
  let ?d = "case default_proxies S of None \<Rightarrow> [] | Some m \<Rightarrow> m"
  have x: "map_of (case normalize_proxies proxies of None \<Rightarrow> ?d | Some e \<Rightarrow> dict_update ?d e) =
           map_of ?d ++ map_of (case normalize_proxies proxies of None \<Rightarrow> [] | Some e \<Rightarrow> e)"
    by (auto simp: map_of_dict_update map_of_rev_distinct distinct_normalize split: option.splits)
  have 1: "map_of (effective_proxies S proxies proxy) =
     (if truthy proxy
      then (map_of ?d ++
            map_of (case normalize_proxies proxies of None \<Rightarrow> [] | Some e \<Rightarrow> e))
             (''http'' \<mapsto> py_str proxy, ''https'' \<mapsto> py_str proxy)
      else map_of ?d ++
           map_of (case normalize_proxies proxies of None \<Rightarrow> [] | Some e \<Rightarrow> e))"
    unfolding effective_proxies_def Let_def using x by (simp add: map_of_set_both)
  have 2: "map_of (effective_proxies (init E ikw) (Dict [(PStr ''https'', PStr P1)]) (PStr P2)) =
        [''http'' \<mapsto> P2, ''https'' \<mapsto> P2]" if "P2 \<noteq> []"
  proof (rule ext)
    fix k
    let ?m = "effective_proxies (init E ikw) (Dict [(PStr ''https'', PStr P1)]) (PStr P2)"
    have sk: "scheme_keys_only ?m"
      by (rule scheme_keys_effective) (rule scheme_keys_init)
    have t: "truthy (PStr P2)" using that by simp
    have m: "\<exists>m0. map_of ?m = map_of (set_both P2 m0)"
      using t by (simp add: effective_proxies_def Let_def) blast
    show "map_of ?m k = [''http'' \<mapsto> P2, ''https'' \<mapsto> P2] k"
    proof (cases "k = ''http'' \<or> k = ''https''")
      case True
      then show ?thesis using m unfolding map_of_set_both by auto
    next
      case False
      then have "map_of ?m k = None"
        using scheme_keys_map_of [OF sk] by blast
      with False show ?thesis by simp
    qed
  qed
  have 3: "proxy_url_of E S url kw =
     pick_proxy E url
       (Some (effective_proxies S (pop (k_proxies kw) (Atom PNone)) (pop (k_proxy kw) PNone)))"
    by (simp add: proxy_url_of_def)
  have 4: "request E S meth url kw = (Inl x, [])" if "proxy_url_of E S url kw = Inl x"
    using that by (rule request_unresolved)
  have 5: "\<exists>p rest. purl = Some p \<and> snd (request E S meth url kw) = EvConnector p # rest"
    if "proxy_url_of E S url kw = Inr purl" "use_socks purl" "ProxyConnector E"
    using that request_via_events_head [of purl E meth url kw]
    by (simp add: request_resolved)
  have 6: "\<exists>c rest. snd (request E S meth url kw) = EvRequest c # rest \<and>
                 c_target c = Persistent \<and> c_proxy c = purl"
    if "proxy_url_of E S url kw = Inr purl" "\<not> use_socks purl"
    using that request_via_events_head [of purl E meth url kw]
    by (simp add: request_resolved)
  show ?thesis using 1 2 3 4 5 6 by blast
qed

theorem effective_proxies_precedence_witness:
  "''socks5://p2'' \<noteq> [] \<and>
   map_of (effective_proxies (init example_env no_session_kwargs)
             (Dict [(PStr ''https'', PStr ''http://p1'')]) (PStr ''socks5://p2'')) =
     [''http'' \<mapsto> ''socks5://p2'', ''https'' \<mapsto> ''socks5://p2''] \<and>
   effective_proxies
     (init example_env (no_session_kwargs\<lparr>i_proxies := Some (Dict [(PStr ''http'', PStr ''http://d'')])\<rparr>))
     (Dict [(PStr ''https'', PStr ''http://p1'')]) PNone =
     [(''http'', ''http://d''), (''https'', ''http://p1'')] \<and>
   proxy_url_of example_env
     (init example_env (no_session_kwargs\<lparr>i_proxies := Some (Dict [(PStr ''http'', PStr ''http://d'')])\<rparr>))
     ''https://host''
     (no_request_kwargs\<lparr>k_proxies := Some (Dict [(PStr ''https'', PStr ''http://p1'')])\<rparr>) =
     Inr (Some ''http://p1'') \<and>
   \<not> use_socks (Some ''http://p1'') \<and>
   (\<exists>c rest.
      snd (request example_env
             (init example_env (no_session_kwargs\<lparr>i_proxies := Some (Dict [(PStr ''http'', PStr ''http://d'')])\<rparr>))
             ''get'' ''https://host''
             (no_request_kwargs\<lparr>k_proxies := Some (Dict [(PStr ''https'', PStr ''http://p1'')])\<rparr>)) =
        EvRequest c # rest \<and>
      c_target c = Persistent \<and> c_proxy c = Some ''http://p1'') \<and>
   proxy_url_of example_env (init example_env no_session_kwargs) ''http://[::1''
     (no_request_kwargs\<lparr>k_proxy := Some (PStr ''http://p1'')\<rparr>) =
     Inl (ValueError ''Invalid IPv6 URL'') \<and>
   request example_env (init example_env no_session_kwargs) ''get'' ''http://[::1''
     (no_request_kwargs\<lparr>k_proxy := Some (PStr ''http://p1'')\<rparr>) =
     (Inl (ValueError ''Invalid IPv6 URL''), [])"
proof -
  let ?S = "init example_env (no_session_kwargs\<lparr>i_proxies := Some (Dict [(PStr ''http'', PStr ''http://d'')])\<rparr>)"
  let ?kw = "no_request_kwargs\<lparr>k_proxies := Some (Dict [(PStr ''https'', PStr ''http://p1'')])\<rparr>"
  let ?kw2 = "no_request_kwargs\<lparr>k_proxy := Some (PStr ''http://p1'')\<rparr>"
  have h: "''socks5://p2'' \<noteq> []" by simp
  have v: "proxy_url_of example_env (init example_env no_session_kwargs) ''http://[::1'' ?kw2 =
     Inl (ValueError ''Invalid IPv6 URL'')"
    by code_simp
  note t1 = effective_proxies_precedence
      [where S = ?S and proxies = "Atom PNone"
          and proxy = PNone and ?P2.0 = "''socks5://p2''" and E = example_env
          and ikw = no_session_kwargs and ?P1.0 = "''http://p1''" and url = "''https://host''"
          and kw = ?kw and meth = "''get''" and purl = "Some ''http://p1''"]
  note t2 = effective_proxies_precedence
      [where S = "init example_env no_session_kwargs" and proxies = "Atom PNone"
          and proxy = PNone and ?P2.0 = "''socks5://p2''" and E = example_env
          and ikw = no_session_kwargs and ?P1.0 = "''http://p1''" and url = "''http://[::1''"
          and kw = ?kw2 and meth = "''get''" and x = "ValueError ''Invalid IPv6 URL''"]
  have 1: "map_of (effective_proxies (init example_env no_session_kwargs)
             (Dict [(PStr ''https'', PStr ''http://p1'')]) (PStr ''socks5://p2'')) =
     [''http'' \<mapsto> ''socks5://p2'', ''https'' \<mapsto> ''socks5://p2'']"
    using h t1 by blast
  have 2: "\<exists>c rest. snd (request example_env ?S ''get'' ''https://host'' ?kw) = EvRequest c # rest \<and>
      c_target c = Persistent \<and> c_proxy c = Some ''http://p1''"
    using proxy_url_of_example use_socks_example t1 by blast
  have 3: "request example_env (init example_env no_session_kwargs) ''get'' ''http://[::1'' ?kw2 =
     (Inl (ValueError ''Invalid IPv6 URL''), [])"
    using v t2 by blast
  show ?thesis
    using h 1 effective_proxies_example proxy_url_of_example use_socks_example 2 v 3 by blast
qed

section \<open>Fallback session: properties\<close>

lemma close_never_raises: "fst (close r) = Inr ()"
  by (simp add: close_def Let_def except_pass_def split: option.splits)

lemma request_socks_missing:
  "proxy_url_of E S url kw = Inr purl \<Longrightarrow> use_socks purl \<Longrightarrow> \<not> ProxyConnector E \<Longrightarrow>
   request E S meth url kw = (Inl socks_missing, [])"
  by (simp add: request_def request_via_def Let_def socks_missing_def)

lemma startswith_socks_nonempty: "startswith (lower p) ''socks'' \<Longrightarrow> p \<noteq> []"
  by (auto simp: startswith_def lower_def)

lemma use_socks_Some_iff: "use_socks (Some p) \<longleftrightarrow> startswith (lower p) ''socks''"
  using startswith_socks_nonempty by (auto simp: use_socks_def)

lemma pick_set_both:
  assumes "scheme_keys_only m" "p \<noteq> []"
  shows "pick_proxy E url (Some (set_both p m)) =
           (case urlparse_scheme E url of Inl e \<Rightarrow> Inl e | Inr s \<Rightarrow> Inr (Some p))"
proof (cases "urlparse_scheme E url")
  case (Inl e)
  have "set_both p m \<noteq> []" by (simp add: set_both_def)
  with Inl show ?thesis by (simp add: pick_proxy_def)
next
  case (Inr s)
  have sk: "scheme_keys_only (set_both p m)" using assms(1) by (rule scheme_keys_set_both)
  have ne: "set_both p m \<noteq> []" by (simp add: set_both_def)
  have h: "map_of (set_both p m) ''https'' = Some p" by (simp add: map_of_set_both)
  have "map_of (set_both p m) (scheme_or_https s) = Some p \<or>
        map_of (set_both p m) (scheme_or_https s) = None"
    using scheme_keys_map_of [OF sk, of "scheme_or_https s"] by (auto simp: map_of_set_both)
  then show ?thesis using Inr ne h assms(2) by (auto simp: pick_proxy_def or_else_def)
qed

lemma proxy_url_of_proxy:
  assumes "p \<noteq> []"
  shows "proxy_url_of E (init E' ikw) url (kw\<lparr>k_proxy := Some (PStr p)\<rparr>) =
           (case urlparse_scheme E url of Inl e \<Rightarrow> Inl e | Inr s \<Rightarrow> Inr (Some p))"
proof -
  have "\<exists>m. scheme_keys_only m \<and>
          effective_proxies (init E' ikw) (pop (k_proxies kw) (Atom PNone)) (PStr p) = set_both p m"
    using assms scheme_keys_effective [of "init E' ikw" "pop (k_proxies kw) (Atom PNone)" PNone]
      scheme_keys_init [of E' ikw]
    by (auto simp: effective_proxies_def Let_def)
  then show ?thesis using assms by (auto simp: proxy_url_of_def pop_def pick_set_both)
qed

lemma request_no_dispatch:
  assumes "startswith (lower p) ''socks''" "\<not> ProxyConnector E"
  shows "request E (init E' ikw) meth url (kw\<lparr>k_proxy := Some (PStr p)\<rparr>) =
           (case urlparse_scheme E url of
              Inl e \<Rightarrow> (Inl e, [])
            | Inr s \<Rightarrow> (Inl socks_missing, []))"
proof -
  have ne: "p \<noteq> []" using assms(1) by (rule startswith_socks_nonempty)
  note pu = proxy_url_of_proxy [OF ne, of E E' ikw url kw]
  show ?thesis
  proof (cases "urlparse_scheme E url")
    case (Inl e)
    with pu have "proxy_url_of E (init E' ikw) url (kw\<lparr>k_proxy := Some (PStr p)\<rparr>) = Inl e"
      by simp
    then show ?thesis using Inl by (simp add: request_unresolved)
  next
    case (Inr s)
    with pu have "proxy_url_of E (init E' ikw) url (kw\<lparr>k_proxy := Some (PStr p)\<rparr>) = Inr (Some p)"
      by simp
    moreover have "use_socks (Some p)" using assms(1) by (simp add: use_socks_Some_iff)
    ultimately show ?thesis using assms(2) Inr by (simp add: request_socks_missing)
  qed
qed

text \<open>
  C1. For every call of \<open>request\<close> whose resolved proxy URL starts with \<^verbatim>\<open>socks\<close>, in any
  mix of upper and lower case, while \<^verbatim>\<open>aiohttp_socks\<close> is not available, the session raises
  its error "SOCKS proxy requested but aiohttp-socks is not installed" and has made no engine
  call at all: no connector, no session, no request. In particular a call with such a
  per-call \<^verbatim>\<open>proxy\<close>, on any session, makes no engine call for any URL: it raises this
  error when \<^verbatim>\<open>urlparse\<close> accepts the URL, and otherwise the \<^verbatim>\<open>ValueError\<close> of \<^verbatim>\<open>urlparse\<close>,
  with which the proxy URL is not resolved at all.
\<close>

theorem socks_without_connector:
  "(proxy_url_of E S url kw = Inr purl \<and> use_socks purl \<and> \<not> ProxyConnector E \<longrightarrow>
      request E S meth url kw = (Inl socks_missing, [])) \<and>
   (use_socks (Some p) \<longleftrightarrow> startswith (lower p) ''socks'') \<and>
   (startswith (lower p) ''socks'' \<and> \<not> ProxyConnector E \<and> urlparse_scheme E url = Inr s \<longrightarrow>
      proxy_url_of E (init E ikw) url (kw\<lparr>k_proxy := Some (PStr p)\<rparr>) = Inr (Some p) \<and>
      request E (init E ikw) meth url (kw\<lparr>k_proxy := Some (PStr p)\<rparr>) = (Inl socks_missing, [])) \<and>
   (startswith (lower p) ''socks'' \<and> \<not> ProxyConnector E \<and> urlparse_scheme E url = Inl e \<longrightarrow>
      request E (init E ikw) meth url (kw\<lparr>k_proxy := Some (PStr p)\<rparr>) = (Inl e, [])) \<and>
   (startswith (lower p) ''socks'' \<and> \<not> ProxyConnector E \<longrightarrow>
      snd (request E (init E ikw) meth url (kw\<lparr>k_proxy := Some (PStr p)\<rparr>)) = [])"
proof -
  have 3: "proxy_url_of E (init E ikw) url (kw\<lparr>k_proxy := Some (PStr p)\<rparr>) = Inr (Some p) \<and>
      request E (init E ikw) meth url (kw\<lparr>k_proxy := Some (PStr p)\<rparr>) = (Inl socks_missing, [])"
    if "startswith (lower p) ''socks''" "\<not> ProxyConnector E" "urlparse_scheme E url = Inr s"
    using request_no_dispatch [OF that(1,2), of E ikw meth url kw]
      proxy_url_of_proxy [OF startswith_socks_nonempty [OF that(1)], of E E ikw url kw] that(3)
    by simp
  have 4: "request E (init E ikw) meth url (kw\<lparr>k_proxy := Some (PStr p)\<rparr>) = (Inl e, [])"
    if "startswith (lower p) ''socks''" "\<not> ProxyConnector E" "urlparse_scheme E url = Inl e"
    using request_no_dispatch [OF that(1,2), of E ikw meth url kw] that(3) by simp
  have 5: "snd (request E (init E ikw) meth url (kw\<lparr>k_proxy := Some (PStr p)\<rparr>)) = []"
    if "startswith (lower p) ''socks''" "\<not> ProxyConnector E"
    using request_no_dispatch [OF that, of E ikw meth url kw]
    by (cases "urlparse_scheme E url") simp_all
  show ?thesis
    using request_socks_missing [of E S url kw purl meth] use_socks_Some_iff [of p] 3 4 5
    by blast
qed

lemma startswith_socks_example: "startswith (lower ''SOCKS5://127.0.0.1:1080'') ''socks''"
  by code_simp

lemma urlparse_https_host: "urlparse_scheme E ''https://host/'' = Inr ''https''"
  by code_simp

theorem socks_without_connector_witness:
  "startswith (lower ''SOCKS5://127.0.0.1:1080'') ''socks'' \<and> \<not> ProxyConnector example_env \<and>
   urlparse_scheme example_env ''https://host/'' = Inr ''https'' \<and>
   proxy_url_of example_env (init example_env no_session_kwargs) ''https://host/''
     (no_request_kwargs\<lparr>k_proxy := Some (PStr ''SOCKS5://127.0.0.1:1080'')\<rparr>) =
     Inr (Some ''SOCKS5://127.0.0.1:1080'') \<and>
   use_socks (Some ''SOCKS5://127.0.0.1:1080'') \<and>
   request example_env (init example_env no_session_kwargs) ''get'' ''https://host/''
     (no_request_kwargs\<lparr>k_proxy := Some (PStr ''SOCKS5://127.0.0.1:1080'')\<rparr>) =
     (Inl socks_missing, []) \<and>
   urlparse_scheme example_env ''http://[::1'' = Inl (ValueError ''Invalid IPv6 URL'') \<and>
   request example_env (init example_env no_session_kwargs) ''get'' ''http://[::1''
     (no_request_kwargs\<lparr>k_proxy := Some (PStr ''SOCKS5://127.0.0.1:1080'')\<rparr>) =
     (Inl (ValueError ''Invalid IPv6 URL''), [])"
proof -
  let ?kw = "no_request_kwargs\<lparr>k_proxy := Some (PStr ''SOCKS5://127.0.0.1:1080'')\<rparr>"
  have a: "\<not> ProxyConnector example_env" by (simp add: example_env_def)
  have u: "urlparse_scheme example_env ''https://host/'' = Inr ''https''"
    by (rule urlparse_https_host)
  have v: "urlparse_scheme example_env ''http://[::1'' = Inl (ValueError ''Invalid IPv6 URL'')"
    by (rule urlparse_open_bracket)
  note t1 = socks_without_connector
      [where S = "init example_env no_session_kwargs" and url = "''https://host/''"
         and kw = no_request_kwargs and purl = "Some ''SOCKS5://127.0.0.1:1080''"
         and E = example_env and meth = "''get''" and p = "''SOCKS5://127.0.0.1:1080''"
         and ikw = no_session_kwargs and s = "''https''"]
  note t2 = socks_without_connector
      [where S = "init example_env no_session_kwargs" and url = "''https://host/''"
         and kw = ?kw and purl = "Some ''SOCKS5://127.0.0.1:1080''"
         and E = example_env and meth = "''get''" and p = "''SOCKS5://127.0.0.1:1080''"
         and ikw = no_session_kwargs and s = "''https''"]
  note t3 = socks_without_connector
      [where S = "init example_env no_session_kwargs" and url = "''http://[::1''"
         and kw = no_request_kwargs and purl = "Some ''SOCKS5://127.0.0.1:1080''"
         and E = example_env and meth = "''get''" and p = "''SOCKS5://127.0.0.1:1080''"
         and ikw = no_session_kwargs and e = "ValueError ''Invalid IPv6 URL''"]
  have b: "proxy_url_of example_env (init example_env no_session_kwargs) ''https://host/'' ?kw =
     Inr (Some ''SOCKS5://127.0.0.1:1080'')"
    using startswith_socks_example a u t1 by blast
  have c: "use_socks (Some ''SOCKS5://127.0.0.1:1080'')"
    using startswith_socks_example t1 by blast
  have d: "request example_env (init example_env no_session_kwargs) ''get'' ''https://host/'' ?kw =
     (Inl socks_missing, [])"
    using a b c t2 by blast
  have e: "request example_env (init example_env no_session_kwargs) ''get'' ''http://[::1'' ?kw =
     (Inl (ValueError ''Invalid IPv6 URL''), [])"
    using startswith_socks_example a v t3 by blast
  show ?thesis using startswith_socks_example a u b c d v e by blast
qed

lemma finish_raises:
  "finish stream resp owner = (Inl e, evs) \<Longrightarrow> stream_error resp = Some e"
  using close_never_raises [of "new_response (resp\<lparr>chunks := []\<rparr>) (Some (concat (chunks resp))) owner"]
  by (auto simp: finish_def read_def split: if_splits option.splits sum.splits prod.splits)

lemma request_try_raises:
  assumes "request_try E stream socks purl c0 = (Inl e, evs)"
  shows "engine_raises E e"
proof (cases socks)
  case None
  let ?c = "c0\<lparr>c_target := Persistent, c_proxy := purl\<rparr>"
  show ?thesis
  proof (cases "session_request E ?c")
    case (Inl e')
    with None assms have "e = e'" by (simp add: request_try_def Let_def)
    with Inl show ?thesis unfolding engine_raises_def by blast
  next
    case (Inr resp)
    obtain res evs' where f: "finish stream resp None = (res, evs')" by (cases "finish stream resp None")
    with None Inr assms have "res = Inl e" by (simp add: request_try_def Let_def)
    with f have "stream_error resp = Some e" using finish_raises by blast
    with Inr show ?thesis unfolding engine_raises_def by blast
  qed
next
  case (Some p)
  let ?c = "c0\<lparr>c_target := Temporary p (c_timeout c0), c_proxy := None\<rparr>"
  show ?thesis
  proof (cases "from_url E p")
    case (Some e')
    with \<open>socks = Some p\<close> assms have "e = e'" by (simp add: request_try_def)
    with Some show ?thesis unfolding engine_raises_def by blast
  next
    case None
    show ?thesis
    proof (cases "session_request E ?c")
      case (Inl e')
      with None \<open>socks = Some p\<close> assms
      have "temp_session_close E = Some e \<or> e = e'"
        by (auto simp: request_try_def Let_def split: option.splits)
      with Inl show ?thesis unfolding engine_raises_def by blast
    next
      case (Inr resp)
      let ?o = "Some \<lparr>s_closed = False, close_result = temp_session_close E\<rparr>"
      obtain res evs' where f: "finish stream resp ?o = (res, evs')"
        by (cases "finish stream resp ?o")
      with None Inr \<open>socks = Some p\<close> assms have "res = Inl e"
        by (simp add: request_try_def Let_def)
      with f have "stream_error resp = Some e" using finish_raises by blast
      with Inr show ?thesis unfolding engine_raises_def by blast
    qed
  qed
qed

lemma reraise_cases:
  "reraise e = (if is_transport e then RequestsError (exn_str e) else e)"
  by (cases e) (simp_all add: reraise_def is_transport_def)

lemma request_via_otherwise:
  assumes "ProxyConnector E \<or> \<not> use_socks purl"
  shows "\<exists>stream socks c0.
      request_via E meth url kw purl =
        (case request_try E stream socks purl c0 of
           (Inl e, evs) \<Rightarrow> (Inl (reraise e), evs)
         | (Inr r, evs) \<Rightarrow> (Inr r, evs))"
proof -
  define c0 where "c0 = \<lparr>c_target = Persistent, c_method = upper meth, c_url = url,
                   c_allow_redirects = pop (k_allow_redirects kw) (PBool True), c_proxy = None,
                   c_timeout = to_timeout E (pop (k_timeout kw) PNone),
                   c_ssl = (if pop (k_verify kw) PNone \<noteq> PNone
                            then Some (ssl_for_verify (pop (k_verify kw) PNone)) else None),
                   c_extra = k_extra kw\<rparr>"
  define socks where "socks = (if use_socks purl then purl else None)"
  have f: "\<not> (use_socks purl \<and> \<not> ProxyConnector E)" using assms by blast
  have "request_via E meth url kw purl =
        (case request_try E (truthy (pop (k_stream kw) (PBool False))) socks purl c0 of
           (Inl e, evs) \<Rightarrow> (Inl (reraise e), evs)
         | (Inr r, evs) \<Rightarrow> (Inr r, evs))"
    using f unfolding c0_def socks_def request_via_def Let_def
    by (simp only: if_False simp_thms)
  then show ?thesis by blast
qed

lemma request_via_error_origin:
  assumes "request_via E meth url kw purl = (Inl x, evs)"
  shows "(x = socks_missing \<and> evs = []) \<or>
         (\<exists>e. engine_raises E e \<and> x = (if is_transport e then RequestsError (exn_str e) else e))"
proof -
  consider "use_socks purl \<and> \<not> ProxyConnector E"
    | stream socks c0 where "request_via E meth url kw purl =
        (case request_try E stream socks purl c0 of
           (Inl e, evs) \<Rightarrow> (Inl (reraise e), evs)
         | (Inr r, evs) \<Rightarrow> (Inr r, evs))"
    using request_via_otherwise [of E purl meth url kw] by blast
  then show ?thesis
  proof cases
    case 1
    then have "request_via E meth url kw purl = (Inl socks_missing, [])"
      by (simp add: request_via_def Let_def socks_missing_def)
    with assms show ?thesis by simp
  next
    case 2
    obtain res evs' where t: "request_try E stream socks purl c0 = (res, evs')"
      by (cases "request_try E stream socks purl c0")
    with 2 assms obtain e where "res = Inl e" "x = reraise e"
      by (cases res) auto
    with t have "engine_raises E e" using request_try_raises by blast
    with \<open>x = reraise e\<close> show ?thesis using reraise_cases by blast
  qed
qed

text \<open>
  Whatever \<open>request\<close> raises is the \<^verbatim>\<open>ValueError\<close> of \<^verbatim>\<open>urlparse\<close> (no engine call made),
  the SOCKS configuration error (no engine call made), or an exception of the engine:
  turned into \<^verbatim>\<open>RequestsError\<close> with its message when it is an \<^verbatim>\<open>aiohttp.ClientError\<close> or an
  \<^verbatim>\<open>asyncio.TimeoutError\<close>, and as it is otherwise.
\<close>

lemma request_error_origin:
  assumes "request E S meth url kw = (Inl x, evs)"
  shows "(proxy_url_of E S url kw = Inl x \<and> evs = []) \<or>
         (x = socks_missing \<and> evs = []) \<or>
         (\<exists>e. engine_raises E e \<and> x = (if is_transport e then RequestsError (exn_str e) else e))"
proof (cases "proxy_url_of E S url kw")
  case (Inl e)
  with assms show ?thesis by (simp add: request_def)
next
  case (Inr purl)
  with assms have "request_via E meth url kw purl = (Inl x, evs)" by (simp add: request_def)
  from request_via_error_origin [OF this] show ?thesis by blast
qed

text \<open>
  An engine that fails the dispatch with \<open>e\<close> makes \<open>request\<close> raise \<open>e\<close>, as
  \<^verbatim>\<open>RequestsError\<close> when it is of the two classes caught; so does a response whose payload
  fails with \<open>e\<close> when it is read (line 267, \<^verbatim>\<open>stream\<close> being false).
\<close>

lemma request_dispatch_fails:
  assumes "proxy_url_of E S url kw = Inr purl" "ProxyConnector E \<or> \<not> use_socks purl"
      and "\<forall>p. from_url E p = None" and "temp_session_close E = None"
      and "\<forall>c. session_request E c = Inl e"
  shows "fst (request E S meth url kw) = Inl (if is_transport e then RequestsError (exn_str e) else e)"
proof -
  from request_via_otherwise [OF assms(2), of meth url kw]
  obtain stream socks c0 where r: "request_via E meth url kw purl =
        (case request_try E stream socks purl c0 of
           (Inl e, evs) \<Rightarrow> (Inl (reraise e), evs)
         | (Inr r, evs) \<Rightarrow> (Inr r, evs))"
    by blast
  have "fst (request_try E stream socks purl c0) = Inl e"
    using assms(3-5) by (simp add: request_try_def Let_def split: option.splits)
  then show ?thesis unfolding request_resolved [OF assms(1)] r
    by (auto simp: reraise_cases split: prod.splits sum.splits)
qed

lemma finish_read_fails:
  "stream_error resp = Some e \<Longrightarrow> finish False resp owner = (Inl e, [EvRead])"
  by (simp add: finish_def read_def)

lemma request_read_fails:
  assumes "proxy_url_of E S url kw = Inr purl" "\<not> use_socks purl"
      and "\<not> truthy (pop (k_stream kw) (PBool False))"
      and "\<forall>c. \<exists>resp. session_request E c = Inr resp \<and> stream_error resp = Some e"
  shows "fst (request E S meth url kw) = Inl (if is_transport e then RequestsError (exn_str e) else e)"
proof -
  define c where "c = \<lparr>c_target = Persistent, c_method = upper meth, c_url = url,
                   c_allow_redirects = pop (k_allow_redirects kw) (PBool True), c_proxy = purl,
                   c_timeout = to_timeout E (pop (k_timeout kw) PNone),
                   c_ssl = (if pop (k_verify kw) PNone \<noteq> PNone
                            then Some (ssl_for_verify (pop (k_verify kw) PNone)) else None),
                   c_extra = k_extra kw\<rparr>"
  obtain resp where resp: "session_request E c = Inr resp" "stream_error resp = Some e"
    using assms(4) by blast
  have "request_via E meth url kw purl = (Inl (reraise e), [EvRequest c, EvRead])"
    using assms(2,3) resp unfolding request_via_def Let_def request_try_def c_def [symmetric]
    by (simp add: c_def finish_read_fails)
  then show ?thesis unfolding request_resolved [OF assms(1)] by (simp add: reraise_cases)
qed

lemma is_transport_iff: "is_transport e \<longleftrightarrow> (\<exists>m. e = ClientError m \<or> e = TimeoutError m)"
  by (cases e) (simp_all add: is_transport_def)

text \<open>
  C3. A connection failure of the engine is not always re-raised as \<^verbatim>\<open>RequestsError\<close>. When
  the request goes through a SOCKS proxy and the proxy cannot be reached, the connector of
  \<^verbatim>\<open>aiohttp_socks\<close> raises \<^verbatim>\<open>ProxyConnectionError\<close>, which is neither an
  \<^verbatim>\<open>aiohttp.ClientError\<close> nor an \<^verbatim>\<open>asyncio.TimeoutError\<close>: line 271 does not catch it, and
  \<open>request\<close> raises it as it is, after closing the temporary session. The same failure
  on the persistent session (an HTTP proxy that cannot be reached is an
  \<^verbatim>\<open>aiohttp.ClientError\<close>) comes out as \<^verbatim>\<open>RequestsError\<close> with the message of the engine.
\<close>

theorem socks_connect_failure_unwrapped:
  "request (socks_failing_env (ProxyConnectionError ''Could not connect to proxy 127.0.0.1:1080''))
     (init example_env no_session_kwargs) ''GET'' ''http://host''
     (no_request_kwargs\<lparr>k_proxy := Some (PStr ''socks5://127.0.0.1:1080'')\<rparr>) =
     (Inl (ProxyConnectionError ''Could not connect to proxy 127.0.0.1:1080''),
      [EvConnector ''socks5://127.0.0.1:1080'', EvSessionOpen,
       EvRequest \<lparr>c_target = Temporary ''socks5://127.0.0.1:1080'' None, c_method = ''GET'',
                   c_url = ''http://host'', c_allow_redirects = PBool True, c_proxy = None,
                   c_timeout = None, c_ssl = None, c_extra = []\<rparr>,
       EvSessionClose]) \<and>
   request (failing_env (ClientError ''Cannot connect to host 127.0.0.1:8080''))
     (init example_env no_session_kwargs) ''GET'' ''http://host''
     (no_request_kwargs\<lparr>k_proxy := Some (PStr ''http://127.0.0.1:8080'')\<rparr>) =
     (Inl (RequestsError ''Cannot connect to host 127.0.0.1:8080''),
      [EvRequest \<lparr>c_target = Persistent, c_method = ''GET'',
                   c_url = ''http://host'', c_allow_redirects = PBool True,
                   c_proxy = Some ''http://127.0.0.1:8080'',
                   c_timeout = None, c_ssl = None, c_extra = []\<rparr>])"
  by code_simp

section \<open>Timeouts: properties\<close>

lemma to_timeout_not_floatable: "not_floatable E v \<Longrightarrow> to_timeout E v = None"
  by (auto simp: to_timeout_def not_floatable_def split: sum.splits)

lemma to_timeout_PNone: "to_timeout E PNone = None"
  by (simp add: to_timeout_def)

lemma request_via_timeout_absent:
  assumes "to_timeout E v = None"
  shows "request_via E meth url (kw\<lparr>k_timeout := Some v\<rparr>) purl =
         request_via E meth url (kw\<lparr>k_timeout := None\<rparr>) purl"
  using assms unfolding request_via_def Let_def by (simp add: pop_def to_timeout_PNone)

lemma proxy_url_of_timeout: "proxy_url_of E S url (kw\<lparr>k_timeout := x\<rparr>) = proxy_url_of E S url kw"
  by (simp add: proxy_url_of_def)

lemma request_timeout_absent:
  assumes "to_timeout E v = None"
  shows "request E S meth url (kw\<lparr>k_timeout := Some v\<rparr>) = request E S meth url (kw\<lparr>k_timeout := None\<rparr>)"
  unfolding request_def proxy_url_of_timeout
  by (cases "proxy_url_of E S url kw") (simp_all add: request_via_timeout_absent [OF assms])

lemma init_timeout_absent:
  assumes "to_timeout E v = None"
  shows "init E (ikw\<lparr>i_timeout := Some v\<rparr>) = init E (ikw\<lparr>i_timeout := None\<rparr>)"
  using assms unfolding init_def Let_def by (simp add: pop_def to_timeout_PNone)

lemma close_calls: "set (calls (snd (close r))) \<subseteq> set (calls r) \<union> {EvRelease, EvSessionClose}"
  by (auto simp: close_def Let_def except_pass_def split: option.splits if_splits)

lemma finish_events: "set (snd (finish stream resp owner)) \<subseteq> {EvRead, EvRelease, EvSessionClose}"
proof (cases stream)
  case True
  then show ?thesis by (simp add: finish_def)
next
  case False
  show ?thesis
  proof (cases "read resp")
    case (Inl e)
    with False show ?thesis by (simp add: finish_def)
  next
    case (Inr b)
    let ?w = "new_response (resp\<lparr>chunks := []\<rparr>) (Some b) owner"
    have "set (calls (snd (close ?w))) \<subseteq> {EvRelease, EvSessionClose}"
      using close_calls [of ?w] by (simp add: new_response_def)
    with False Inr show ?thesis
      by (cases "close ?w") (auto simp: finish_def split: sum.splits)
  qed
qed

lemma request_try_calls:
  assumes "EvRequest c \<in> set (snd (request_try E stream socks purl c0))"
  shows "c_timeout c = c_timeout c0 \<and>
         (c_target c = Persistent \<or> (\<exists>p. c_target c = Temporary p (c_timeout c0)))"
proof -
  have nf: "EvRequest c \<notin> set (snd (finish stream resp owner))" for resp owner
    using finish_events [of stream resp owner] by auto
  show ?thesis
  proof (cases socks)
    case None
    let ?c = "c0\<lparr>c_target := Persistent, c_proxy := purl\<rparr>"
    have "c = ?c"
    proof (cases "session_request E ?c")
      case (Inl e)
      with None assms show ?thesis by (simp add: request_try_def Let_def)
    next
      case (Inr resp)
      with None assms nf [of resp None] show ?thesis
        by (cases "finish stream resp None") (auto simp: request_try_def Let_def)
    qed
    then show ?thesis by simp
  next
    case (Some p)
    let ?c = "c0\<lparr>c_target := Temporary p (c_timeout c0), c_proxy := None\<rparr>"
    let ?o = "Some \<lparr>s_closed = False, close_result = temp_session_close E\<rparr>"
    have "c = ?c"
    proof (cases "from_url E p")
      case (Some e)
      with \<open>socks = Some p\<close> assms show ?thesis by (simp add: request_try_def)
    next
      case None
      show ?thesis
      proof (cases "session_request E ?c")
        case (Inl e)
        with None \<open>socks = Some p\<close> assms show ?thesis
          by (auto simp: request_try_def Let_def split: option.splits)
      next
        case (Inr resp)
        with None \<open>socks = Some p\<close> assms nf [of resp ?o] show ?thesis
          by (cases "finish stream resp ?o") (auto simp: request_try_def Let_def)
      qed
    qed
    then show ?thesis by auto
  qed
qed

lemma request_calls:
  assumes "EvRequest c \<in> set (snd (request E S meth url kw))"
  shows "c_timeout c = to_timeout E (pop (k_timeout kw) PNone) \<and>
         (c_target c = Persistent \<or> (\<exists>p. c_target c = Temporary p (c_timeout c)))"
proof (cases "proxy_url_of E S url kw")
  case (Inl e)
  with assms show ?thesis by (simp add: request_def)
next
  case (Inr purl)
  define c0 where "c0 = \<lparr>c_target = Persistent, c_method = upper meth, c_url = url,
                   c_allow_redirects = pop (k_allow_redirects kw) (PBool True), c_proxy = None,
                   c_timeout = to_timeout E (pop (k_timeout kw) PNone),
                   c_ssl = (if pop (k_verify kw) PNone \<noteq> PNone
                            then Some (ssl_for_verify (pop (k_verify kw) PNone)) else None),
                   c_extra = k_extra kw\<rparr>"
  have "EvRequest c \<in> set (snd (request_via E meth url kw purl))"
    using assms Inr by (simp add: request_def)
  then have "\<exists>stream socks. EvRequest c \<in> set (snd (request_try E stream socks purl c0))"
    unfolding c0_def request_via_events by (auto split: if_splits)
  then obtain stream socks
    where "EvRequest c \<in> set (snd (request_try E stream socks purl c0))"
    by blast
  from request_try_calls [OF this] show ?thesis by (auto simp: c0_def)
qed

text \<open>
  C10, as the code has it. For every timeout value, session-level or per-call, that
  \<^verbatim>\<open>float\<close> cannot convert (a non-numeric string, say), the backend treats the value as
  absent and raises no error: the session, and the outcome of the request, are exactly
  those obtained when no timeout is supplied. The request is then dispatched with no
  timeout of its own: on the persistent session it runs under the session-level timeout
  when the session has one, and otherwise, as always on the temporary session of a SOCKS
  proxy (which is built with the per-call timeout only), under the default timeout of the
  engine.
\<close>

theorem unconvertible_timeout_as_absent:
  "not_floatable E v \<longrightarrow>
     to_timeout E v = None \<and>
     request E S meth url (kw\<lparr>k_timeout := Some v\<rparr>) =
       request E S meth url (kw\<lparr>k_timeout := None\<rparr>) \<and>
     init E (ikw\<lparr>i_timeout := Some v\<rparr>) = init E (ikw\<lparr>i_timeout := None\<rparr>) \<and>
     s_timeout (init E (ikw\<lparr>i_timeout := Some v\<rparr>)) = None \<and>
     (\<forall>c. EvRequest c \<in> set (snd (request E S meth url (kw\<lparr>k_timeout := Some v\<rparr>))) \<longrightarrow>
          c_timeout c = None \<and>
          ((c_target c = Persistent \<and>
            timeout_in_force S c =
              (case s_timeout S of Some t \<Rightarrow> Total t | None \<Rightarrow> EngineDefault)) \<or>
           ((\<exists>p. c_target c = Temporary p None) \<and> timeout_in_force S c = EngineDefault)))"
proof
  assume nf: "not_floatable E v"
  then have t: "to_timeout E v = None" by (rule to_timeout_not_floatable)
  have s: "s_timeout (init E (ikw\<lparr>i_timeout := Some v\<rparr>)) = None"
    using t by (simp add: init_def Let_def pop_def)
  have c: "c_timeout c = None \<and>
          ((c_target c = Persistent \<and>
            timeout_in_force S c =
              (case s_timeout S of Some t \<Rightarrow> Total t | None \<Rightarrow> EngineDefault)) \<or>
           ((\<exists>p. c_target c = Temporary p None) \<and> timeout_in_force S c = EngineDefault))"
    if "EvRequest c \<in> set (snd (request E S meth url (kw\<lparr>k_timeout := Some v\<rparr>)))" for c
  proof -
    from request_calls [OF that]
    have "c_timeout c = None" "c_target c = Persistent \<or> (\<exists>p. c_target c = Temporary p None)"
      using t by (auto simp: pop_def)
    then show ?thesis by (auto simp: timeout_in_force_def)
  qed
  show "to_timeout E v = None \<and>
     request E S meth url (kw\<lparr>k_timeout := Some v\<rparr>) =
       request E S meth url (kw\<lparr>k_timeout := None\<rparr>) \<and>
     init E (ikw\<lparr>i_timeout := Some v\<rparr>) = init E (ikw\<lparr>i_timeout := None\<rparr>) \<and>
     s_timeout (init E (ikw\<lparr>i_timeout := Some v\<rparr>)) = None \<and>
     (\<forall>c. EvRequest c \<in> set (snd (request E S meth url (kw\<lparr>k_timeout := Some v\<rparr>))) \<longrightarrow>
          c_timeout c = None \<and>
          ((c_target c = Persistent \<and>
            timeout_in_force S c =
              (case s_timeout S of Some t \<Rightarrow> Total t | None \<Rightarrow> EngineDefault)) \<or>
           ((\<exists>p. c_target c = Temporary p None) \<and> timeout_in_force S c = EngineDefault)))"
    using t s c request_timeout_absent [OF t] init_timeout_absent [OF t] by blast
qed

lemma not_floatable_example: "not_floatable example_env (PStr ''abc'')"
  by (simp add: not_floatable_def example_env_def)

text \<open>
  C10 as stated fails where it says that no timeout is enforced: on a session built with
  \<^verbatim>\<open>timeout=10\<close> a request with \<^verbatim>\<open>timeout="abc"\<close> is dispatched on the persistent session
  without a timeout of its own, and the session's 10 seconds apply.
\<close>

theorem per_call_timeout_counterexample:
  "not_floatable example_env (PStr ''abc'') \<and>
   s_timeout (init example_env (no_session_kwargs\<lparr>i_timeout := Some (PInt 10)\<rparr>)) =
     Some (Finite 10 0) \<and>
   snd (request example_env (init example_env (no_session_kwargs\<lparr>i_timeout := Some (PInt 10)\<rparr>))
          ''GET'' ''http://host'' (no_request_kwargs\<lparr>k_timeout := Some (PStr ''abc'')\<rparr>)) =
     [EvRequest \<lparr>c_target = Persistent, c_method = ''GET'', c_url = ''http://host'',
                 c_allow_redirects = PBool True, c_proxy = None, c_timeout = None,
                 c_ssl = None, c_extra = []\<rparr>,
      EvRead, EvRelease] \<and>
   timeout_in_force (init example_env (no_session_kwargs\<lparr>i_timeout := Some (PInt 10)\<rparr>))
     \<lparr>c_target = Persistent, c_method = ''GET'', c_url = ''http://host'',
      c_allow_redirects = PBool True, c_proxy = None, c_timeout = None,
      c_ssl = None, c_extra = []\<rparr> = Total (Finite 10 0)"
  by code_simp

lemma socks_timeout_example:
  "snd (request (example_env\<lparr>ProxyConnector := True\<rparr>)
          (init example_env (no_session_kwargs\<lparr>i_timeout := Some (PInt 10)\<rparr>))
          ''GET'' ''http://host''
          (no_request_kwargs\<lparr>k_proxy := Some (PStr ''socks5://127.0.0.1:1080''),
                              k_timeout := Some (PStr ''abc'')\<rparr>)) =
     [EvConnector ''socks5://127.0.0.1:1080'', EvSessionOpen,
      EvRequest \<lparr>c_target = Temporary ''socks5://127.0.0.1:1080'' None, c_method = ''GET'',
                  c_url = ''http://host'', c_allow_redirects = PBool True, c_proxy = None,
                  c_timeout = None, c_ssl = None, c_extra = []\<rparr>,
      EvRead, EvRelease, EvSessionClose]"
  by code_simp

lemma not_floatable_socks_example: "not_floatable (example_env\<lparr>ProxyConnector := True\<rparr>) (PStr ''abc'')"
  by (simp add: not_floatable_def example_env_def)

theorem unconvertible_timeout_as_absent_witness:
  "not_floatable example_env (PStr ''abc'') \<and>
   to_timeout example_env (PStr ''abc'') = None \<and>
   request example_env (init example_env no_session_kwargs) ''GET'' ''http://host''
     (no_request_kwargs\<lparr>k_timeout := Some (PStr ''abc'')\<rparr>) =
   request example_env (init example_env no_session_kwargs) ''GET'' ''http://host''
     (no_request_kwargs\<lparr>k_timeout := None\<rparr>) \<and>
   init example_env (no_session_kwargs\<lparr>i_timeout := Some (PStr ''abc'')\<rparr>) =
     init example_env (no_session_kwargs\<lparr>i_timeout := None\<rparr>) \<and>
   EvRequest \<lparr>c_target = Temporary ''socks5://127.0.0.1:1080'' None, c_method = ''GET'',
               c_url = ''http://host'', c_allow_redirects = PBool True, c_proxy = None,
               c_timeout = None, c_ssl = None, c_extra = []\<rparr>
     \<in> set (snd (request (example_env\<lparr>ProxyConnector := True\<rparr>)
                     (init example_env (no_session_kwargs\<lparr>i_timeout := Some (PInt 10)\<rparr>))
                     ''GET'' ''http://host''
                     ((no_request_kwargs\<lparr>k_proxy := Some (PStr ''socks5://127.0.0.1:1080'')\<rparr>)
                        \<lparr>k_timeout := Some (PStr ''abc'')\<rparr>))) \<and>
   timeout_in_force (init example_env (no_session_kwargs\<lparr>i_timeout := Some (PInt 10)\<rparr>))
     \<lparr>c_target = Temporary ''socks5://127.0.0.1:1080'' None, c_method = ''GET'',
      c_url = ''http://host'', c_allow_redirects = PBool True, c_proxy = None,
      c_timeout = None, c_ssl = None, c_extra = []\<rparr> = EngineDefault"
proof -
  let ?c = "\<lparr>c_target = Temporary ''socks5://127.0.0.1:1080'' None, c_method = ''GET'',
               c_url = ''http://host'', c_allow_redirects = PBool True, c_proxy = None,
               c_timeout = None, c_ssl = None, c_extra = []\<rparr>"
  let ?E = "example_env\<lparr>ProxyConnector := True\<rparr>"
  let ?S = "init example_env (no_session_kwargs\<lparr>i_timeout := Some (PInt 10)\<rparr>)"
  let ?kw = "no_request_kwargs\<lparr>k_proxy := Some (PStr ''socks5://127.0.0.1:1080'')\<rparr>"
  note t1 = unconvertible_timeout_as_absent
    [where E = example_env and v = "PStr ''abc''" and S = "init example_env no_session_kwargs"
       and meth = "''GET''" and url = "''http://host''" and kw = no_request_kwargs
       and ikw = no_session_kwargs]
  note t2 = unconvertible_timeout_as_absent
    [where E = ?E and v = "PStr ''abc''" and S = ?S
       and meth = "''GET''" and url = "''http://host''" and kw = ?kw
       and ikw = no_session_kwargs]
  have m: "EvRequest ?c \<in> set (snd (request ?E ?S ''GET'' ''http://host'' (?kw\<lparr>k_timeout := Some (PStr ''abc'')\<rparr>)))"
    using socks_timeout_example by simp
  have p: "c_target ?c \<noteq> Persistent" by simp
  have 1: "timeout_in_force ?S ?c = EngineDefault"
    using not_floatable_socks_example m p t2 by blast
  show ?thesis
    using not_floatable_example t1 m 1 by blast
qed

section \<open>Response wrapper: properties\<close>

lemma close_closed: "closed r \<Longrightarrow> close r = (Inr (), r)"
  by (simp add: close_def)

lemma close_open:
  assumes "\<not> closed r"
  shows "closed (snd (close r))" "releases (snd (close r)) = releases r + 1"
    "session_closes (snd (close r)) \<le> session_closes r + 1"
    "body (snd (close r)) = body r"
  using assms
  by (auto simp: close_def Let_def except_pass_def releases_def session_closes_def
      split: option.splits)

lemma close_idem: "close (snd (close r)) = (Inr (), snd (close r))"
proof (cases "closed r")
  case True
  then show ?thesis by (simp add: close_closed)
next
  case False
  then have "closed (snd (close r))" by (rule close_open)
  then show ?thesis by (rule close_closed)
qed

lemma close_effect:
  "closed (snd (close r)) \<and>
   releases (snd (close r)) = releases r + (if closed r then 0 else 1) \<and>
   session_closes (snd (close r)) \<le> session_closes r + (if closed r then 0 else 1)"
  using close_open [of r] by (cases "closed r") (simp_all add: close_closed)

lemma snd_finally_close: "snd (finally_close out r) = snd (close r)"
  by (cases "close r") (auto simp: finally_close_def split: sum.splits)

lemma read_body_effect:
  "(closed r \<longrightarrow> closed (snd (read_body r))) \<and>
   releases (snd (read_body r)) \<le> releases r + (if closed r then 0 else 1) \<and>
   session_closes (snd (read_body r)) \<le> session_closes r + (if closed r then 0 else 1) \<and>
   (\<not> closed (snd (read_body r)) \<longrightarrow>
      releases (snd (read_body r)) = releases r \<and> session_closes (snd (read_body r)) = session_closes r)"
proof (cases "body r")
  case (Some b)
  then show ?thesis by (simp add: read_body_def)
next
  case None
  let ?r1 = "r\<lparr>calls := calls r @ [EvRead]\<rparr>"
  have r1: "closed ?r1 = closed r" "releases ?r1 = releases r" "session_closes ?r1 = session_closes r"
    by (simp_all add: releases_def session_closes_def)
  show ?thesis
  proof (cases "read (response ?r1)")
    case (Inl e)
    with None r1 show ?thesis by (simp add: read_body_def Let_def)
  next
    case (Inr b)
    let ?r2 = "?r1\<lparr>body := Some b, response := (response ?r1)\<lparr>chunks := []\<rparr>\<rparr>"
    have r2: "closed ?r2 = closed r" "releases ?r2 = releases r" "session_closes ?r2 = session_closes r"
      by (simp_all add: releases_def session_closes_def)
    have s: "snd (read_body r) = snd (close ?r2)"
      using None Inr by (cases "close ?r2") (auto simp: read_body_def Let_def split: sum.splits)
    show ?thesis unfolding s using close_effect [of ?r2] r2 by auto
  qed
qed

lemma stream_generator_cases:
  "snd (stream_generator n taken items err left r) = r \<or>
   (\<exists>cs. snd (stream_generator n taken items err left r) =
           r\<lparr>calls := calls r @ [EvIterChunked n], response := (response r)\<lparr>chunks := cs\<rparr>\<rparr>) \<or>
   snd (stream_generator n taken items err left r) =
     snd (close (r\<lparr>calls := calls r @ [EvIterChunked n], response := (response r)\<lparr>chunks := []\<rparr>\<rparr>))"
  by (auto simp: stream_generator_def Let_def snd_finally_close split: option.splits)

lemma stream_generator_effect:
  "(closed r \<longrightarrow> closed (snd (stream_generator n taken items err left r))) \<and>
   releases (snd (stream_generator n taken items err left r)) \<le> releases r + (if closed r then 0 else 1) \<and>
   session_closes (snd (stream_generator n taken items err left r))
     \<le> session_closes r + (if closed r then 0 else 1) \<and>
   (\<not> closed (snd (stream_generator n taken items err left r)) \<longrightarrow>
      releases (snd (stream_generator n taken items err left r)) = releases r \<and>
      session_closes (snd (stream_generator n taken items err left r)) = session_closes r)"
proof -
  let ?g = "snd (stream_generator n taken items err left r)"
  let ?r2 = "r\<lparr>calls := calls r @ [EvIterChunked n], response := (response r)\<lparr>chunks := []\<rparr>\<rparr>"
  have r2: "closed ?r2 = closed r" "releases ?r2 = releases r" "session_closes ?r2 = session_closes r"
    by (simp_all add: releases_def session_closes_def)
  consider "?g = r"
    | cs where "?g = r\<lparr>calls := calls r @ [EvIterChunked n], response := (response r)\<lparr>chunks := cs\<rparr>\<rparr>"
    | "?g = snd (close ?r2)"
    using stream_generator_cases [of n taken items err left r] by blast
  then show ?thesis
  proof cases
    case 1
    then show ?thesis by simp
  next
    case 2
    then show ?thesis by (simp add: releases_def session_closes_def)
  next
    case 3
    then show ?thesis using close_effect [of ?r2] r2 by auto
  qed
qed

lemma stream_generator_exhausted:
  "closed (snd (stream_generator n None items err left r))"
proof -
  let ?r2 = "r\<lparr>calls := calls r @ [EvIterChunked n], response := (response r)\<lparr>chunks := []\<rparr>\<rparr>"
  have "snd (stream_generator n None items err left r) = snd (close ?r2)"
    by (simp add: stream_generator_def Let_def snd_finally_close)
  then show ?thesis using close_effect [of ?r2] by simp
qed

lemma stream_generator_abandoned:
  assumes "0 < k" "k \<le> length items"
  shows "closed (snd (stream_generator n (Some k) items err left r)) = closed r"
    "releases (snd (stream_generator n (Some k) items err left r)) = releases r"
    "session_closes (snd (stream_generator n (Some k) items err left r)) = session_closes r"
    "fst (stream_generator n (Some k) items err left r) = (take k items, None)"
  using assms by (simp_all add: stream_generator_def Let_def releases_def session_closes_def)

lemma step_effect:
  "(closed r \<longrightarrow> closed (step op r)) \<and>
   releases (step op r) \<le> releases r + (if closed r then 0 else 1) \<and>
   session_closes (step op r) \<le> session_closes r + (if closed r then 0 else 1) \<and>
   (\<not> closed (step op r) \<longrightarrow>
      releases (step op r) = releases r \<and> session_closes (step op r) = session_closes r)"
proof (cases op)
  case OpClose
  then show ?thesis using close_effect [of r] by auto
next
  case OpAexit
  then show ?thesis using close_effect [of r] by (auto simp: aexit_def)
next
  case OpText
  have "snd (text_method r) = snd (read_body r)"
    by (cases "read_body r") (auto simp: text_method_def split: sum.splits)
  with OpText show ?thesis using read_body_effect [of r] by simp
next
  case (OpContent n k)
  show ?thesis
  proof (cases "body r")
    case (Some b)
    with OpContent show ?thesis by (simp add: aiter_content_def)
  next
    case None
    with OpContent have s: "step op r =
        snd (stream_generator n k (filter (\<lambda>chunk. chunk \<noteq> []) (chunks (response r)))
               (stream_error (response r)) (\<lambda>k. after_content k (chunks (response r))) r)"
      by (simp add: aiter_content_def Let_def)
    show ?thesis unfolding s by (rule stream_generator_effect)
  qed
next
  case (OpLines k)
  show ?thesis
  proof (cases "body r")
    case (Some b)
    with OpLines show ?thesis by (simp add: aiter_lines_def)
  next
    case None
    with OpLines have s: "step op r =
        snd (stream_generator 8192 k
               (fst (stream_lines (chunks (response r)) (stream_error (response r))))
               (snd (stream_lines (chunks (response r)) (stream_error (response r))))
               (\<lambda>k. after_lines k [] (chunks (response r))) r)"
      by (simp add: aiter_lines_def Let_def)
    show ?thesis unfolding s by (rule stream_generator_effect)
  qed
next
  case OpFinalize
  then show ?thesis using close_effect [of r] by auto
qed

lemma run_effect:
  "(closed r \<longrightarrow> closed (run ops r)) \<and>
   releases (run ops r) \<le> releases r + (if closed r then 0 else 1) \<and>
   session_closes (run ops r) \<le> session_closes r + (if closed r then 0 else 1)"
proof (induction ops arbitrary: r)
  case Nil
  then show ?case by (simp add: run_def)
next
  case (Cons op ops)
  have r: "run (op # ops) r = run ops (step op r)" by (simp add: run_def)
  show ?case
  proof (cases "closed (step op r)")
    case True
    with Cons.IH [of "step op r"] step_effect [of r op] show ?thesis unfolding r by auto
  next
    case False
    with Cons.IH [of "step op r"] step_effect [of r op] show ?thesis unfolding r
      by (auto split: if_splits)
  qed
qed

lemma exhaustion_closes:
  assumes "body r = None"
  shows "closed (step (OpContent n None) r)" "closed (step (OpLines None) r)"
  using assms stream_generator_exhausted
  by (simp_all add: aiter_content_def aiter_lines_def Let_def)

lemma abandoned_lines:
  assumes "body r = None" "0 < k"
    "k \<le> length (fst (stream_lines (chunks (response r)) (stream_error (response r))))"
  shows "closed (step (OpLines (Some k)) r) = closed r"
    "releases (step (OpLines (Some k)) r) = releases r"
    "fst (aiter_lines (Some k) r) =
       (take k (fst (stream_lines (chunks (response r)) (stream_error (response r)))), None)"
  using assms stream_generator_abandoned [OF assms(2,3)]
  by (simp_all add: aiter_lines_def Let_def)

lemma abandoned_content:
  assumes "body r = None" "0 < k"
    "k \<le> length (filter (\<lambda>chunk. chunk \<noteq> []) (chunks (response r)))"
  shows "closed (step (OpContent n (Some k)) r) = closed r"
    "releases (step (OpContent n (Some k)) r) = releases r"
  using assms stream_generator_abandoned [OF assms(2,3)]
  by (simp_all add: aiter_content_def Let_def)

lemma new_response_fresh:
  "\<not> closed (new_response h b owner)" "releases (new_response h b owner) = 0"
  "session_closes (new_response h b owner) = 0"
  by (simp_all add: new_response_def releases_def session_closes_def)

text \<open>
  C2. For every response in any state (unread or materialised, with or without an owned
  temporary session, whatever the engine's \<^verbatim>\<open>release()\<close> and \<^verbatim>\<open>close()\<close> do),
  \<open>close\<close> never raises, leaves the response closed, and a second \<open>close\<close> changes
  nothing. An open response is released exactly once by it and its session closed at most
  once; on a closed response no sequence of further uses (\<^verbatim>\<open>close\<close>, leaving a scope,
  \<^verbatim>\<open>text\<close>, running an iterator to its end, abandoning it, finalising an abandoned one)
  releases anything again. So over the life of a response, from its construction, the
  handle is released at most once and the owned session closed at most once, whichever of
  these paths released it first, and \<open>close\<close> after any of them that closed the response
  is a no-op. An explicit \<open>close\<close>, leaving a scope, and running an iterator of an unread
  response to its end close the response at once. Abandoning an iterator of an unread
  response after some items releases nothing by itself: the response is as open as it
  was, and it is the finalisation of the abandoned generator that closes it, releasing an
  open response exactly once.
\<close>

theorem close_idempotent:
  "fst (close r) = Inr () \<and>
   close (snd (close r)) = (Inr (), snd (close r)) \<and>
   closed (snd (close r)) \<and>
   releases (snd (close r)) = releases r + (if closed r then 0 else 1) \<and>
   session_closes (snd (close r)) \<le> session_closes r + (if closed r then 0 else 1) \<and>
   (closed r \<longrightarrow> closed (run ops r) \<and> releases (run ops r) \<le> releases r \<and>
                 session_closes (run ops r) \<le> session_closes r) \<and>
   releases (run ops r) \<le> releases r + 1 \<and>
   session_closes (run ops r) \<le> session_closes r + 1 \<and>
   releases (run ops (new_response h b owner)) \<le> 1 \<and>
   session_closes (run ops (new_response h b owner)) \<le> 1 \<and>
   (closed (step op r) \<longrightarrow> close (step op r) = (Inr (), step op r)) \<and>
   closed (step OpClose r) \<and>
   closed (step OpAexit r) \<and>
   (body r = None \<longrightarrow> closed (step (OpContent n None) r) \<and> closed (step (OpLines None) r)) \<and>
   (body r = None \<and> 0 < k \<and>
    k \<le> length (fst (stream_lines (chunks (response r)) (stream_error (response r)))) \<longrightarrow>
      closed (step (OpLines (Some k)) r) = closed r \<and>
      releases (step (OpLines (Some k)) r) = releases r \<and>
      closed (step OpFinalize (step (OpLines (Some k)) r)) \<and>
      releases (step OpFinalize (step (OpLines (Some k)) r)) =
        releases r + (if closed r then 0 else 1)) \<and>
   (body r = None \<and> 0 < k \<and>
    k \<le> length (filter (\<lambda>chunk. chunk \<noteq> []) (chunks (response r))) \<longrightarrow>
      closed (step (OpContent n (Some k)) r) = closed r \<and>
      releases (step (OpContent n (Some k)) r) = releases r \<and>
      closed (step OpFinalize (step (OpContent n (Some k)) r)) \<and>
      releases (step OpFinalize (step (OpContent n (Some k)) r)) =
        releases r + (if closed r then 0 else 1))"
proof -
  have a: "releases (run ops (new_response h b owner)) \<le> 1"
    "session_closes (run ops (new_response h b owner)) \<le> 1"
    using run_effect [of "new_response h b owner" ops] new_response_fresh [of h b owner]
    by simp_all
  have b: "releases (run ops r) \<le> releases r + 1" "session_closes (run ops r) \<le> session_closes r + 1"
    using run_effect [of r ops] by (auto split: if_splits)
  have c: "closed r \<longrightarrow> closed (run ops r) \<and> releases (run ops r) \<le> releases r \<and>
                 session_closes (run ops r) \<le> session_closes r"
    using run_effect [of r ops] by (cases "closed r") simp_all
  have d: "closed (step op r) \<longrightarrow> close (step op r) = (Inr (), step op r)"
    by (simp add: close_closed)
  have e: "closed (step OpClose r)" "closed (step OpAexit r)"
    using close_effect [of r] by (simp_all add: aexit_def)
  have f: "closed (step OpFinalize r') \<and>
           releases (step OpFinalize r') = releases r + (if closed r then 0 else 1)"
    if "closed r' = closed r" "releases r' = releases r" for r'
    using close_effect [of r'] that by simp
  have g: "closed (step (OpLines (Some k)) r) = closed r \<and>
      releases (step (OpLines (Some k)) r) = releases r \<and>
      closed (step OpFinalize (step (OpLines (Some k)) r)) \<and>
      releases (step OpFinalize (step (OpLines (Some k)) r)) =
        releases r + (if closed r then 0 else 1)"
    if "body r = None" "0 < k"
      "k \<le> length (fst (stream_lines (chunks (response r)) (stream_error (response r))))"
    using abandoned_lines(1,2) [OF that] f [of "step (OpLines (Some k)) r"] by blast
  have i: "closed (step (OpContent n (Some k)) r) = closed r \<and>
      releases (step (OpContent n (Some k)) r) = releases r \<and>
      closed (step OpFinalize (step (OpContent n (Some k)) r)) \<and>
      releases (step OpFinalize (step (OpContent n (Some k)) r)) =
        releases r + (if closed r then 0 else 1)"
    if "body r = None" "0 < k"
      "k \<le> length (filter (\<lambda>chunk. chunk \<noteq> []) (chunks (response r)))"
    using abandoned_content [OF that, of n] f [of "step (OpContent n (Some k)) r"] by blast
  show ?thesis
    using a b c d e g i close_never_raises [of r] close_idem [of r] close_effect [of r]
      exhaustion_closes(1) [of r n] exhaustion_closes(2) [of r]
    by blast
qed

lemma stubborn_response_close:
  "close stubborn_response =
     (Inr (), stubborn_response\<lparr>closed := True, calls := [EvRelease, EvSessionClose],
        owned_session := Some \<lparr>s_closed = False,
                                close_result = Some (OtherError ''OSError'' ''broken pipe'')\<rparr>\<rparr>)"
  by (simp add: stubborn_response_def new_response_def close_def Let_def except_pass_def)

lemma stubborn_response_lines:
  "fst (stream_lines (chunks (response stubborn_response)) (stream_error (response stubborn_response))) =
     [text_of ''ab'']"
  by code_simp

theorem close_idempotent_witness:
  "body stubborn_response = None \<and> \<not> closed stubborn_response \<and> 0 < (1::nat) \<and>
   1 \<le> length (fst (stream_lines (chunks (response stubborn_response))
                        (stream_error (response stubborn_response)))) \<and>
   \<not> closed (step (OpLines (Some 1)) stubborn_response) \<and>
   releases (step (OpLines (Some 1)) stubborn_response) = 0 \<and>
   closed (step OpFinalize (step (OpLines (Some 1)) stubborn_response)) \<and>
   releases (step OpFinalize (step (OpLines (Some 1)) stubborn_response)) = 1 \<and>
   closed (step (OpLines None) stubborn_response) \<and>
   closed (snd (close stubborn_response)) \<and>
   releases (snd (close stubborn_response)) = 1 \<and>
   close (snd (close stubborn_response)) = (Inr (), snd (close stubborn_response)) \<and>
   releases (run [OpClose, OpLines None, OpAexit, OpText, OpFinalize] (snd (close stubborn_response))) \<le> 1 \<and>
   session_closes (run [OpClose, OpLines None, OpAexit, OpText, OpFinalize] (snd (close stubborn_response))) \<le> 1"
proof -
  let ?ops = "[OpClose, OpLines None, OpAexit, OpText, OpFinalize]"
  have b: "body stubborn_response = None" by (simp add: stubborn_response_def new_response_def)
  have o: "\<not> closed stubborn_response" "releases stubborn_response = 0"
    by (simp_all add: stubborn_response_def new_response_def releases_def)
  have l: "1 \<le> length (fst (stream_lines (chunks (response stubborn_response))
                        (stream_error (response stubborn_response))))"
    by (simp add: stubborn_response_lines)
  have z: "0 < (1::nat)" by simp
  have r1: "releases (snd (close stubborn_response)) = 1"
    by (simp add: stubborn_response_close releases_def)
  have s1: "session_closes (snd (close stubborn_response)) = 1"
    by (simp add: stubborn_response_close session_closes_def)
  note t1 = close_idempotent [where r = stubborn_response and op = "OpLines (Some 1)"
      and ops = "[]" and h = "response stubborn_response" and b = None and owner = None
      and k = 1 and n = 1]
  note t2 = close_idempotent [where r = "snd (close stubborn_response)" and op = OpClose
      and ops = ?ops and h = "response stubborn_response"
      and b = None and owner = None and k = 1 and n = 1]
  have c: "closed (snd (close stubborn_response))" using t1 by blast
  have a: "closed (step (OpLines (Some 1)) stubborn_response) = closed stubborn_response \<and>
      releases (step (OpLines (Some 1)) stubborn_response) = releases stubborn_response \<and>
      closed (step OpFinalize (step (OpLines (Some 1)) stubborn_response)) \<and>
      releases (step OpFinalize (step (OpLines (Some 1)) stubborn_response)) =
        releases stubborn_response + (if closed stubborn_response then 0 else 1)"
    using b z l t1 by blast
  have 1: "\<not> closed (step (OpLines (Some 1)) stubborn_response)"
    "releases (step (OpLines (Some 1)) stubborn_response) = 0"
    "closed (step OpFinalize (step (OpLines (Some 1)) stubborn_response))"
    "releases (step OpFinalize (step (OpLines (Some 1)) stubborn_response)) = 1"
    using a o by simp_all
  have e: "closed (step (OpLines None) stubborn_response)" using b t1 by blast
  have 2: "close (snd (close stubborn_response)) = (Inr (), snd (close stubborn_response))"
    using t1 by blast
  have 3: "releases (run ?ops (snd (close stubborn_response))) \<le> 1"
    using c t2 r1 by auto
  have 4: "session_closes (run ?ops (snd (close stubborn_response))) \<le> 1"
    using c t2 s1 by auto
  show ?thesis using b o z l c r1 1 e 2 3 4 by blast
qed

text \<open>
  C4. For every response whose body is not yet materialised \<^verbatim>\<open>json()\<close> raises the
  \<^verbatim>\<open>RuntimeError\<close> "JSON body not available yet. Read stream content first."; with a
  materialised empty body it returns the empty mapping; with a materialised non-empty
  body it returns what \<^verbatim>\<open>json.loads\<close> makes of the bytes decoded as UTF-8. A response
  built for streaming starts unread.
\<close>

theorem json_method_cases:
  "(body r = None \<longrightarrow>
      json_method E r =
        Inl (RuntimeError ''JSON body not available yet. Read stream content first.'')) \<and>
   (body r = Some [] \<longrightarrow> json_method E r = Inr (JDict [])) \<and>
   (body r = Some b \<and> b \<noteq> [] \<longrightarrow> json_method E r = json_loads E (decode b)) \<and>
   body (new_response h None owner) = None"
  by (simp add: json_method_def new_response_def)

lemma decode_example: "decode ''[1]'' = text_of ''[1]''"
  by code_simp

theorem json_method_cases_witness:
  "body stubborn_response = None \<and>
   json_method json_env stubborn_response =
     Inl (RuntimeError ''JSON body not available yet. Read stream content first.'') \<and>
   body (stubborn_response\<lparr>body := Some []\<rparr>) = Some [] \<and>
   json_method json_env (stubborn_response\<lparr>body := Some []\<rparr>) = Inr (JDict []) \<and>
   body (stubborn_response\<lparr>body := Some ''[1]''\<rparr>) = Some ''[1]'' \<and> ''[1]'' \<noteq> [] \<and>
   json_method json_env (stubborn_response\<lparr>body := Some ''[1]''\<rparr>) = Inr (JList [JInt 1])"
proof -
  have b: "body stubborn_response = None" by (simp add: stubborn_response_def new_response_def)
  have l: "json_loads json_env (decode ''[1]'') = Inr (JList [JInt 1])"
    by (simp add: decode_example json_env_def)
  have 1: "json_method json_env stubborn_response =
     Inl (RuntimeError ''JSON body not available yet. Read stream content first.'')"
    using b json_method_cases [where r = stubborn_response and E = json_env] by blast
  have 2: "json_method json_env (stubborn_response\<lparr>body := Some []\<rparr>) = Inr (JDict [])"
    using json_method_cases [where r = "stubborn_response\<lparr>body := Some []\<rparr>" and E = json_env]
    by simp
  have 3: "json_method json_env (stubborn_response\<lparr>body := Some ''[1]''\<rparr>) = Inr (JList [JInt 1])"
    using l json_method_cases [where r = "stubborn_response\<lparr>body := Some ''[1]''\<rparr>"
        and E = json_env and b = "''[1]''"]
    by simp
  show ?thesis using b 1 2 3 by simp
qed

section \<open>Line iteration: properties\<close>

lemma pieces_acc_no_sep: "sep \<notin> set xs \<Longrightarrow> pieces_acc sep cur xs = ([], cur @ xs)"
  by (induction xs arbitrary: cur) auto

lemma pieces_acc_append:
  "pieces_acc sep cur (xs @ ys) =
     (case pieces_acc sep cur xs of
        (ps, r) \<Rightarrow> (case pieces_acc sep r ys of (ps', r') \<Rightarrow> (ps @ ps', r')))"
  by (induction xs arbitrary: cur) (auto split: prod.splits)

lemma pieces_acc_rest_no_sep: "sep \<notin> set cur \<Longrightarrow> sep \<notin> set (snd (pieces_acc sep cur xs))"
proof (induction xs arbitrary: cur)
  case Nil
  then show ?case by simp
next
  case (Cons a xs)
  show ?case
  proof (cases "a = sep")
    case True
    have "sep \<notin> set (snd (pieces_acc sep [] xs))" using Cons.IH [of "[]"] by simp
    with True show ?thesis by (cases "pieces_acc sep [] xs") simp
  next
    case False
    with Cons.prems have "sep \<notin> set (cur @ [a])" by simp
    from Cons.IH [OF this] False show ?thesis by simp
  qed
qed

lemma pieces_acc_carry:
  assumes "sep \<notin> set r"
  shows "pieces_acc sep r ys = pieces_acc sep [] (r @ ys)"
  using assms by (simp add: pieces_acc_append pieces_acc_no_sep)

lemma split_lf_decompose:
  assumes "LF \<in> set buf"
  shows "buf = fst (split_lf buf) @ LF # snd (split_lf buf)" "LF \<notin> set (fst (split_lf buf))"
proof -
  let ?P = "\<lambda>c. c \<noteq> LF"
  from assms have ne: "dropWhile ?P buf \<noteq> []" by simp
  then have "hd (dropWhile ?P buf) = LF" using hd_dropWhile [of ?P buf] by simp
  with ne have "dropWhile ?P buf = LF # tl (dropWhile ?P buf)"
    by (cases "dropWhile ?P buf") auto
  then have "takeWhile ?P buf @ LF # tl (dropWhile ?P buf) = buf"
    using takeWhile_dropWhile_id [of ?P buf] by simp
  then show "buf = fst (split_lf buf) @ LF # snd (split_lf buf)" by (simp add: split_lf_def)
  show "LF \<notin> set (fst (split_lf buf))"
    using set_takeWhileD [of LF ?P buf] by (auto simp: split_lf_def)
qed

lemma drain_pieces:
  "drain buf = (case pieces_acc LF [] buf of (ps, r) \<Rightarrow> (map line_of ps, r))"
proof (induction buf rule: drain.induct)
  case (1 buf)
  show ?case
  proof (cases "LF \<in> set buf")
    case False
    then show ?thesis by (subst drain.simps) (simp add: pieces_acc_no_sep)
  next
    case True
    let ?raw = "fst (split_lf buf)" and ?rest = "snd (split_lf buf)"
    have d: "buf = ?raw @ LF # ?rest" "LF \<notin> set ?raw" using split_lf_decompose [OF True] by auto
    obtain ps r where pr: "pieces_acc LF [] ?rest = (ps, r)" by (cases "pieces_acc LF [] ?rest")
    have "pieces_acc LF [] (?raw @ LF # ?rest) = (?raw # ps, r)"
      using d(2) pr by (simp add: pieces_acc_append pieces_acc_no_sep)
    then have p: "pieces_acc LF [] buf = (?raw # ps, r)" using d(1) by simp
    have ih: "drain ?rest = (map line_of ps, r)" using "1.IH" [OF True] pr by simp
    have "drain buf = (line_of ?raw # map line_of ps, r)"
      using True ih by (subst drain.simps) simp
    then show ?thesis by (simp add: p)
  qed
qed

lemma lines_loop_pieces:
  "LF \<notin> set buf \<Longrightarrow>
   lines_loop buf cs =
     (case pieces_acc LF [] (buf @ concat cs) of (ps, r) \<Rightarrow> (map line_of ps, r))"
proof (induction cs arbitrary: buf)
  case Nil
  then show ?case by (simp add: pieces_acc_no_sep)
next
  case (Cons chunk cs)
  show ?case
  proof (cases "chunk = []")
    case True
    then show ?thesis using Cons.IH [of buf] Cons.prems by simp
  next
    case False
    obtain ps1 r1 where p1: "pieces_acc LF [] (buf @ chunk) = (ps1, r1)"
      by (cases "pieces_acc LF [] (buf @ chunk)")
    obtain ps2 r2 where p2: "pieces_acc LF [] (r1 @ concat cs) = (ps2, r2)"
      by (cases "pieces_acc LF [] (r1 @ concat cs)")
    have n1: "LF \<notin> set r1" using pieces_acc_rest_no_sep [of LF "[]" "buf @ chunk"] p1 by simp
    have c: "pieces_acc LF r1 (concat cs) = (ps2, r2)"
      using pieces_acc_carry [OF n1, of "concat cs"] p2 by simp
    have "pieces_acc LF [] (buf @ concat (chunk # cs)) = pieces_acc LF [] ((buf @ chunk) @ concat cs)"
      by simp
    also have "\<dots> = (ps1 @ ps2, r2)"
      unfolding pieces_acc_append [of LF "[]" "buf @ chunk" "concat cs"] by (simp add: p1 c)
    finally have t: "pieces_acc LF [] (buf @ concat (chunk # cs)) = (ps1 @ ps2, r2)" .
    have d: "drain (buf @ chunk) = (map line_of ps1, r1)" by (simp add: drain_pieces p1)
    have l: "lines_loop r1 cs = (map line_of ps2, r2)" using Cons.IH [OF n1] by (simp add: p2)
    show ?thesis using False by (simp only: lines_loop.simps if_False d l t prod.case map_append)
  qed
qed

lemma stream_lines_pieces:
  "stream_lines cs None = (map line_of (pieces LF (concat cs)), None)"
proof -
  obtain ps r where p: "pieces_acc LF [] (concat cs) = (ps, r)"
    by (cases "pieces_acc LF [] (concat cs)")
  have "lines_loop [] cs = (map line_of ps, r)"
    using lines_loop_pieces [of "[]" cs] p by simp
  then show ?thesis by (simp add: stream_lines_def pieces_def p)
qed

lemma utf8_step_before_ascii:
  "x < 0x80 \<Longrightarrow> utf8_step ch (rest @ x # ys) = utf8_step ch rest"
  by (cases rest; cases "tl rest"; cases "tl (tl rest)")
     (auto simp: utf8_step_def is_cont_def)

lemma utf8_step_length: "snd (utf8_step ch rest) \<le> Suc (length rest)"
  by (auto simp: utf8_step_def split: list.splits)

lemma utf8_step_high:
  assumes "0x80 \<le> ch"
  shows "0x80 \<le> fst (utf8_step ch rest)"
proof -
  consider (a) "ch < 0xC2" | (b) "0xC2 \<le> ch" "ch < 0xE0" | (c) "0xE0 \<le> ch" "ch < 0xF0"
    | (d) "0xF0 \<le> ch" "ch < 0xF5" | (e) "0xF5 \<le> ch"
    by linarith
  then show ?thesis
  proof cases
    case a
    then show ?thesis using assms by (simp add: utf8_step_def)
  next
    case b
    have v: "128 \<le> (ch - 0xC0) * 64 + k" for k using b by linarith
    have s: "utf8_step ch r =
      (case r of [] \<Rightarrow> (0xFFFD, 1)
       | ch2 # _ \<Rightarrow> if \<not> is_cont ch2 then (0xFFFD, 1)
                  else ((ch - 0xC0) * 64 + (ch2 - 0x80), 2))" for r
      using b by (simp add: utf8_step_def)
    show ?thesis unfolding s using v by (simp split: list.splits)
  next
    case c
    have v: "128 \<le> (ch - 0xE0) * 4096 + (ch2 - 0x80) * 64 + k"
      if "\<not> (if ch2 < 0xA0 then ch = 0xE0 else ch = 0xED)" for ch2 k
    proof (cases "ch = 0xE0")
      case True
      with that have "0xA0 \<le> ch2" by (simp split: if_splits)
      then show ?thesis by linarith
    next
      case False
      with c have "1 \<le> ch - 0xE0" by linarith
      then show ?thesis by linarith
    qed
    have s: "utf8_step ch r =
      (case r of
           [] \<Rightarrow> (0xFFFD, 1)
         | ch2 # rest2 \<Rightarrow>
             if \<not> is_cont ch2 \<or> (if ch2 < 0xA0 then ch = 0xE0 else ch = 0xED)
             then (0xFFFD, 1)
             else (case rest2 of
                     [] \<Rightarrow> (0xFFFD, 2)
                   | ch3 # _ \<Rightarrow>
                       if \<not> is_cont ch3 then (0xFFFD, 2)
                       else ((ch - 0xE0) * 4096 + (ch2 - 0x80) * 64 + (ch3 - 0x80), 3)))" for r
      using c by (simp add: utf8_step_def)
    show ?thesis
    proof (cases rest)
      case Nil
      then show ?thesis unfolding s by simp
    next
      case (Cons ch2 rest2)
      show ?thesis
      proof (cases "\<not> is_cont ch2 \<or> (if ch2 < 0xA0 then ch = 0xE0 else ch = 0xED)")
        case True
        have "utf8_step ch (ch2 # rest2) = (0xFFFD, 1)"
          unfolding s list.case using True by (simp only: if_True)
        then show ?thesis unfolding Cons by simp
      next
        case False
        then have w: "128 \<le> (ch - 0xE0) * 4096 + (ch2 - 0x80) * 64 + k" for k using v by blast
        have "utf8_step ch (ch2 # rest2) =
           (case rest2 of
                     [] \<Rightarrow> (0xFFFD, 2)
                   | ch3 # _ \<Rightarrow>
                       if \<not> is_cont ch3 then (0xFFFD, 2)
                       else ((ch - 0xE0) * 4096 + (ch2 - 0x80) * 64 + (ch3 - 0x80), 3))"
          unfolding s list.case using False by (simp only: if_False)
        then show ?thesis unfolding Cons using w by (cases rest2) simp_all
      qed
    qed
  next
    case d
    have v: "128 \<le> (ch - 0xF0) * 262144 + (ch2 - 0x80) * 4096 + k"
      if "\<not> (if ch2 < 0x90 then ch = 0xF0 else ch = 0xF4)" for ch2 k
    proof (cases "ch = 0xF0")
      case True
      with that have "0x90 \<le> ch2" by (simp split: if_splits)
      then show ?thesis by linarith
    next
      case False
      with d have "1 \<le> ch - 0xF0" by linarith
      then show ?thesis by linarith
    qed
    have s: "utf8_step ch r =
      (case r of
           [] \<Rightarrow> (0xFFFD, 1)
         | ch2 # rest2 \<Rightarrow>
             if \<not> is_cont ch2 \<or> (if ch2 < 0x90 then ch = 0xF0 else ch = 0xF4)
             then (0xFFFD, 1)
             else (case rest2 of
                     [] \<Rightarrow> (0xFFFD, 2)
                   | ch3 # rest3 \<Rightarrow>
                       if \<not> is_cont ch3 then (0xFFFD, 2)
                       else (case rest3 of
                               [] \<Rightarrow> (0xFFFD, 3)
                             | ch4 # _ \<Rightarrow>
                                 if \<not> is_cont ch4 then (0xFFFD, 3)
                                 else ((ch - 0xF0) * 262144 + (ch2 - 0x80) * 4096
                                         + (ch3 - 0x80) * 64 + (ch4 - 0x80), 4))))" for r
      using d by (simp add: utf8_step_def)
    show ?thesis
    proof (cases rest)
      case Nil
      then show ?thesis unfolding s by simp
    next
      case (Cons ch2 rest2)
      show ?thesis
      proof (cases "\<not> is_cont ch2 \<or> (if ch2 < 0x90 then ch = 0xF0 else ch = 0xF4)")
        case True
        have "utf8_step ch (ch2 # rest2) = (0xFFFD, 1)"
          unfolding s list.case using True by (simp only: if_True)
        then show ?thesis unfolding Cons by simp
      next
        case False
        then have "128 \<le> (ch - 0xF0) * 262144 + (ch2 - 0x80) * 4096 + k" for k using v by blast
        then have w: "128 \<le> (ch - 0xF0) * 262144 + (ch2 - 0x80) * 4096 + j + k" for j k
          by (simp add: add.assoc)
        have "utf8_step ch (ch2 # rest2) =
           (case rest2 of
                     [] \<Rightarrow> (0xFFFD, 2)
                   | ch3 # rest3 \<Rightarrow>
                       if \<not> is_cont ch3 then (0xFFFD, 2)
                       else (case rest3 of
                               [] \<Rightarrow> (0xFFFD, 3)
                             | ch4 # _ \<Rightarrow>
                                 if \<not> is_cont ch4 then (0xFFFD, 3)
                                 else ((ch - 0xF0) * 262144 + (ch2 - 0x80) * 4096
                                         + (ch3 - 0x80) * 64 + (ch4 - 0x80), 4)))"
          unfolding s list.case using False by (simp only: if_False)
        then show ?thesis unfolding Cons using w by (cases rest2; cases "tl rest2") simp_all
      qed
    qed
  next
    case e
    then show ?thesis by (simp add: utf8_step_def)
  qed
qed

lemma utf8_step_low: "ch < 0x80 \<Longrightarrow> utf8_step ch rest = (ch, 1)"
  by (simp add: utf8_step_def)

lemma utf8_step_ascii: "fst (utf8_step ch rest) < 0x80 \<Longrightarrow> fst (utf8_step ch rest) = ch"
  using utf8_step_high [of ch rest] utf8_step_low [of ch rest] by (cases "ch < 0x80") auto


lemma utf8_decode_append_ascii:
  "x < 0x80 \<Longrightarrow> utf8_decode (xs @ x # ys) = utf8_decode xs @ x # utf8_decode ys"
proof (induction xs rule: utf8_decode.induct)
  case 1
  then show ?case by (simp add: utf8_step_low)
next
  case (2 ch rest)
  let ?n = "snd (utf8_step ch rest)"
  have s: "utf8_step ch (rest @ x # ys) = utf8_step ch rest"
    using "2.prems" by (rule utf8_step_before_ascii)
  have "?n - 1 \<le> length rest" using utf8_step_length [of ch rest] by simp
  then have d: "drop (?n - 1) (rest @ x # ys) = drop (?n - 1) rest @ x # ys" by simp
  have "utf8_decode ((ch # rest) @ x # ys) =
        fst (utf8_step ch rest) # utf8_decode (drop (?n - 1) rest @ x # ys)"
    by (simp only: append_Cons utf8_decode.simps s d)
  also have "\<dots> = fst (utf8_step ch rest) # utf8_decode (drop (?n - 1) rest) @ x # utf8_decode ys"
    using "2.IH" [OF "2.prems"] by simp
  finally show ?case by simp
qed

lemma utf8_decode_ascii_mem:
  "c < 0x80 \<Longrightarrow> c \<in> set (utf8_decode xs) \<Longrightarrow> c \<in> set xs"
proof (induction xs rule: utf8_decode.induct)
  case 1
  then show ?case by simp
next
  case (2 ch rest)
  from "2.prems"(2) consider "c = fst (utf8_step ch rest)"
    | "c \<in> set (utf8_decode (drop (snd (utf8_step ch rest) - 1) rest))"
    by auto
  then show ?case
  proof cases
    case 1
    with "2.prems"(1) have "c = ch" using utf8_step_ascii [of ch rest] by simp
    then show ?thesis by simp
  next
    case 2
    with "2.IH" [OF "2.prems"(1)] have "c \<in> set (drop (snd (utf8_step ch rest) - 1) rest)" by simp
    then show ?thesis using in_set_dropD by fastforce
  qed
qed

lemma utf8_decode_Nil_iff: "utf8_decode xs = [] \<longleftrightarrow> xs = []"
  by (cases xs) simp_all

lemma of_char_LF: "(of_char LF :: nat) = 10"
  by (simp add: LF_def)

lemma of_char_eq_10: "(of_char c :: nat) = 10 \<longleftrightarrow> c = LF"
proof
  assume "(of_char c :: nat) = 10"
  then have "(of_char c :: nat) = of_char LF" by (simp add: of_char_LF)
  then show "c = LF" by (simp only: of_char_eq_iff)
next
  assume "c = LF"
  then show "(of_char c :: nat) = 10" by (simp add: of_char_LF)
qed

lemma decode_append_LF: "decode (xs @ LF # ys) = decode xs @ 10 # decode ys"
  using utf8_decode_append_ascii [of 10 "map of_char xs" "map of_char ys"]
  by (simp add: decode_def of_char_LF)

lemma decode_no_LF: "LF \<notin> set b \<Longrightarrow> 10 \<notin> set (decode b)"
proof
  assume a: "LF \<notin> set b" and "10 \<in> set (decode b)"
  then have "(10::nat) \<in> set (map of_char b)"
    using utf8_decode_ascii_mem [of 10 "map of_char b"] by (simp add: decode_def)
  then obtain c where "c \<in> set b" "(of_char c :: nat) = 10" by auto
  with a show False by (simp add: of_char_eq_10)
qed

lemma decode_Nil_iff: "decode b = [] \<longleftrightarrow> b = []"
  by (simp add: decode_def utf8_decode_Nil_iff)

lemma decode_pieces_acc:
  "pieces_acc 10 [] (decode b) =
     (case pieces_acc LF [] b of (ps, r) \<Rightarrow> (map decode ps, decode r))"
proof (induction b rule: drain.induct)
  case (1 buf)
  show ?case
  proof (cases "LF \<in> set buf")
    case False
    then show ?thesis by (simp add: pieces_acc_no_sep decode_no_LF)
  next
    case True
    let ?raw = "fst (split_lf buf)" and ?rest = "snd (split_lf buf)"
    have d: "buf = ?raw @ LF # ?rest" "LF \<notin> set ?raw" using split_lf_decompose [OF True] by auto
    obtain ps r where pr: "pieces_acc LF [] ?rest = (ps, r)" by (cases "pieces_acc LF [] ?rest")
    have "pieces_acc LF [] (?raw @ LF # ?rest) = (?raw # ps, r)"
      using d(2) pr by (simp add: pieces_acc_append pieces_acc_no_sep)
    then have p: "pieces_acc LF [] buf = (?raw # ps, r)" using d(1) by simp
    have ih: "pieces_acc 10 [] (decode ?rest) = (map decode ps, decode r)"
      using "1.IH" [OF True] pr by simp
    have "decode buf = decode ?raw @ 10 # decode ?rest"
      using d(1) decode_append_LF [of ?raw ?rest] by simp
    then have "pieces_acc 10 [] (decode buf) = (decode ?raw # map decode ps, decode r)"
      using decode_no_LF [OF d(2)] ih by (simp add: pieces_acc_append pieces_acc_no_sep)
    then show ?thesis by (simp add: p)
  qed
qed

lemma decode_pieces: "pieces 10 (decode b) = map decode (pieces LF b)"
  by (cases "pieces_acc LF [] b") (simp add: pieces_def decode_pieces_acc decode_Nil_iff)

lemma strip_one_cr_no_break:
  "\<forall>c\<in>set cur. \<not> is_linebreak c \<Longrightarrow> strip_one_cr cur = cur"
proof (cases "cur = []")
  case True
  then show ?thesis by (simp add: strip_one_cr_def)
next
  case False
  assume a: "\<forall>c\<in>set cur. \<not> is_linebreak c"
  from False have "last cur \<in> set cur" by simp
  with a have "\<not> is_linebreak (last cur)" by blast
  then have "last cur \<noteq> 13" by (auto simp: is_linebreak_def)
  then show ?thesis by (simp add: strip_one_cr_def)
qed

lemma strip_one_cr_snoc: "strip_one_cr (cur @ [13]) = cur"
  by (simp add: strip_one_cr_def)

lemma pieces_from_LF:
  "(case pieces_acc sep cur (sep # cs) of (ps, r) \<Rightarrow> if r = [] then ps else ps @ [r]) =
   cur # (case pieces_acc sep [] cs of (ps, r) \<Rightarrow> if r = [] then ps else ps @ [r])"
  by (cases "pieces_acc sep [] cs") simp

lemma splitlines_from_calm:
  assumes "\<forall>c\<in>set cur. \<not> is_linebreak c" "calm cs"
  shows "splitlines_from cur cs =
         map strip_one_cr
           (case pieces_acc 10 cur cs of (ps, r) \<Rightarrow> if r = [] then ps else ps @ [r])"
  using assms
proof (induction cur cs rule: splitlines_from.induct)
  case (1 cur)
  then show ?case by (simp add: strip_one_cr_no_break)
next
  case (2 cur c cs)
  have sc: "strip_one_cr cur = cur" using "2.prems"(1) by (rule strip_one_cr_no_break)
  show ?case
  proof (cases "is_linebreak c")
    case False
    then have n: "\<forall>x\<in>set (cur @ [c]). \<not> is_linebreak x" using "2.prems"(1) by simp
    from False have c10: "c \<noteq> 10" by (auto simp: is_linebreak_def)
    from False "2.prems"(2) have "calm cs" by (simp split: if_splits)
    from "2.IH"(2) [OF False n this] False c10 show ?thesis by simp
  next
    case True
    show ?thesis
    proof (cases "c = 13")
      case c13: True
      from "2.prems"(2) c13 have cs: "cs = [] \<or> hd cs = 10" and calm_cs: "calm cs" by simp_all
      show ?thesis
      proof (cases cs)
        case Nil
        then show ?thesis using True c13 by (simp add: strip_one_cr_snoc)
      next
        case (Cons d ds)
        with cs have d: "d = 10" by simp
        from calm_cs Cons d have "calm ds" by simp
        have ih: "splitlines_from [] ds =
           map strip_one_cr
             (case pieces_acc 10 [] ds of (ps, r) \<Rightarrow> if r = [] then ps else ps @ [r])"
          using "2.IH"(1) [OF True] \<open>calm ds\<close> c13 Cons d by simp
        have l: "splitlines_from cur (c # cs) = cur # splitlines_from [] ds"
          using True c13 Cons d by simp
        have "pieces_acc 10 cur (c # cs) = pieces_acc 10 (cur @ [13]) (10 # ds)"
          using c13 Cons d by simp
        then have r: "(case pieces_acc 10 cur (c # cs) of (ps, r) \<Rightarrow> if r = [] then ps else ps @ [r]) =
           (cur @ [13]) # (case pieces_acc 10 [] ds of (ps, r) \<Rightarrow> if r = [] then ps else ps @ [r])"
          by (simp only: pieces_from_LF)
        show ?thesis unfolding l r ih by (simp add: strip_one_cr_snoc)
      qed
    next
      case False
      with True "2.prems"(2) have c10: "c = 10" and calm_cs: "calm cs" by (simp_all split: if_splits)
      have ih: "splitlines_from [] cs =
           map strip_one_cr
             (case pieces_acc 10 [] cs of (ps, r) \<Rightarrow> if r = [] then ps else ps @ [r])"
        using "2.IH"(1) [OF True] calm_cs c10 by simp
      have l: "splitlines_from cur (c # cs) = cur # splitlines_from [] cs"
        using True c10 by simp
      have r: "(case pieces_acc 10 cur (c # cs) of (ps, r) \<Rightarrow> if r = [] then ps else ps @ [r]) =
           cur # (case pieces_acc 10 [] cs of (ps, r) \<Rightarrow> if r = [] then ps else ps @ [r])"
        unfolding c10 by (rule pieces_from_LF)
      show ?thesis unfolding l r ih by (simp add: sc)
    qed
  qed
qed

lemma splitlines_calm: "calm t \<Longrightarrow> splitlines t = map strip_one_cr (pieces 10 t)"
  using splitlines_from_calm [of "[]" t] by (simp add: splitlines_def pieces_def)

lemma dropWhile_id: "xs = [] \<or> \<not> P (hd xs) \<Longrightarrow> dropWhile P xs = xs"
  by (cases xs) auto

lemma rstrip_cr_no_cr:
  assumes "13 \<notin> set t"
  shows "rstrip_cr t = t"
proof -
  have "rev t = [] \<or> hd (rev t) \<noteq> 13"
  proof (cases "t = []")
    case True
    then show ?thesis by simp
  next
    case False
    then have "hd (rev t) = last t" by (simp add: hd_rev)
    moreover have "last t \<in> set t" using False by simp
    ultimately show ?thesis using assms by metis
  qed
  then have "dropWhile (\<lambda>c. c = 13) (rev t) = rev t" by (rule dropWhile_id)
  then show ?thesis by (simp add: rstrip_cr_def)
qed

lemma rstrip_cr_last_only:
  assumes "13 \<notin> set (butlast p)"
  shows "rstrip_cr p = strip_one_cr p"
proof (cases p rule: rev_cases)
  case Nil
  then show ?thesis by (simp add: rstrip_cr_def strip_one_cr_def)
next
  case (snoc q x)
  with assms have q: "13 \<notin> set q" by simp
  show ?thesis
  proof (cases "x = 13")
    case True
    have "rstrip_cr (q @ [13]) = rstrip_cr q" by (simp add: rstrip_cr_def)
    then show ?thesis using snoc True q by (simp add: rstrip_cr_no_cr strip_one_cr_snoc)
  next
    case False
    then have "13 \<notin> set p" using snoc q by simp
    then show ?thesis using snoc False by (simp add: rstrip_cr_no_cr strip_one_cr_def)
  qed
qed

lemma calm_pieces_cr:
  assumes "13 \<notin> set (butlast cur)" "cur \<noteq> [] \<and> last cur = 13 \<longrightarrow> cs = [] \<or> hd cs = 10" "calm cs"
  shows "\<forall>p\<in>set (fst (pieces_acc 10 cur cs)) \<union> {snd (pieces_acc 10 cur cs)}. 13 \<notin> set (butlast p)"
  using assms
proof (induction cs arbitrary: cur)
  case Nil
  then show ?case by simp
next
  case (Cons c cs)
  from Cons.prems(3) have calm_cs: "calm cs" by (simp split: if_splits)
  show ?case
  proof (cases "c = 10")
    case True
    have "\<forall>p\<in>set (fst (pieces_acc 10 [] cs)) \<union> {snd (pieces_acc 10 [] cs)}. 13 \<notin> set (butlast p)"
      using Cons.IH [of "[]"] calm_cs by simp
    then show ?thesis using True Cons.prems(1) by (cases "pieces_acc 10 [] cs") auto
  next
    case False
    have lc: "cur \<noteq> [] \<Longrightarrow> last cur \<noteq> 13" using Cons.prems(2) False by auto
    have "13 \<notin> set cur"
    proof (cases cur rule: rev_cases)
      case Nil
      then show ?thesis by simp
    next
      case (snoc ys y)
      with Cons.prems(1) lc show ?thesis by simp
    qed
    then have 1: "13 \<notin> set (butlast (cur @ [c]))" by simp
    have 2: "cur @ [c] \<noteq> [] \<and> last (cur @ [c]) = 13 \<longrightarrow> cs = [] \<or> hd cs = 10"
      using Cons.prems(3) by (auto split: if_splits)
    from Cons.IH [OF 1 2 calm_cs] False show ?thesis by simp
  qed
qed

lemma calm_rstrip:
  assumes "calm t"
  shows "map rstrip_cr (pieces 10 t) = map strip_one_cr (pieces 10 t)"
proof -
  have "\<forall>p\<in>set (fst (pieces_acc 10 [] t)) \<union> {snd (pieces_acc 10 [] t)}. 13 \<notin> set (butlast p)"
    using calm_pieces_cr [of "[]" t] assms by simp
  then have "\<forall>p\<in>set (pieces 10 t). 13 \<notin> set (butlast p)"
    by (cases "pieces_acc 10 [] t") (auto simp: pieces_def)
  then show ?thesis by (simp add: rstrip_cr_last_only)
qed

lemma calm_lines:
  assumes "calm (decode b)"
  shows "map line_of (pieces LF b) = spec_lines b" "splitlines (decode b) = spec_lines b"
proof -
  have s: "spec_lines b = map strip_one_cr (pieces 10 (decode b))"
    by (simp add: spec_lines_def decode_pieces)
  have "map line_of (pieces LF b) = map rstrip_cr (pieces 10 (decode b))"
    by (simp add: decode_pieces line_of_def)
  then show "map line_of (pieces LF b) = spec_lines b" using calm_rstrip [OF assms] s by simp
  show "splitlines (decode b) = spec_lines b" using splitlines_calm [OF assms] s by simp
qed

text \<open>
  Read from the live stream to the end, in whatever chunks the bytes arrive,
  \<^verbatim>\<open>aiter_lines()\<close> yields the pieces of the body between line feeds, decoded, with the
  trailing carriage returns stripped, what is left after the last line feed being a final
  piece when it is not empty. With a materialised buffer it yields the lines of the decoded
  text as \<^verbatim>\<open>str.splitlines()\<close> gives them. Both are the lines of claim C5 when the
  decoded body has no line boundary besides line feeds and carriage returns standing
  directly before a line feed or at the very end.
\<close>

lemma aiter_lines_stream:
  assumes "body r = None" "stream_error (response r) = None"
  shows "fst (aiter_lines None r) =
           (map (\<lambda>raw. rstrip_cr (decode raw)) (pieces LF (concat (chunks (response r)))), None)"
proof -
  let ?r1 = "r\<lparr>calls := calls r @ [EvIterChunked 8192], response := (response r)\<lparr>chunks := []\<rparr>\<rparr>"
  have f: "finally_close out ?r1 = (out, snd (close ?r1))" for out :: "unicode list \<times> exn option"
    using close_never_raises [of ?r1] by (cases "close ?r1") (simp add: finally_close_def)
  have l: "map line_of ps = map (\<lambda>raw. rstrip_cr (decode raw)) ps" for ps
    by (simp add: line_of_def)
  show ?thesis
    using assms by (simp add: aiter_lines_def Let_def stream_generator_def f stream_lines_pieces l)
qed

lemma aiter_lines_materialized:
  assumes "body r = Some b"
  shows "aiter_lines None r = ((splitlines (decode b), None), r)"
  using assms by (simp add: aiter_lines_def consume_def)

lemma calm_abc: "calm (decode body_abc)"
  by code_simp

lemma calm_crlf: "calm (decode body_crlf)"
  by code_simp

lemma spec_lines_abc: "spec_lines body_abc = [text_of ''a'', text_of ''b'', text_of ''c'']"
  by code_simp

lemma spec_lines_crlf: "spec_lines body_crlf = [text_of ''a'', text_of ''b'']"
  by code_simp

lemma aiter_lines_calm:
  assumes "calm (decode b)"
  shows "body r = None \<and> stream_error (response r) = None \<and> concat (chunks (response r)) = b \<Longrightarrow>
           fst (aiter_lines None r) = (spec_lines b, None)"
    and "body r = Some b \<Longrightarrow> fst (aiter_lines None r) = (spec_lines b, None)"
proof -
  have l: "map (\<lambda>raw. rstrip_cr (decode raw)) ps = map line_of ps" for ps
    by (simp add: line_of_def)
  show "body r = None \<and> stream_error (response r) = None \<and> concat (chunks (response r)) = b \<Longrightarrow>
           fst (aiter_lines None r) = (spec_lines b, None)"
    using aiter_lines_stream [of r] calm_lines(1) [OF assms] by (auto simp: l)
  show "body r = Some b \<Longrightarrow> fst (aiter_lines None r) = (spec_lines b, None)"
    using aiter_lines_materialized [of r b] calm_lines(2) [OF assms] by simp
qed

lemma aiter_lines_examples:
  "fst (aiter_lines None (new_response (live_handle [''a'', [LF], ''b'' @ [LF] @ ''c'']) None None)) =
     ([text_of ''a'', text_of ''b'', text_of ''c''], None)"
  "fst (aiter_lines None (new_response (live_handle []) (Some body_abc) None)) =
     ([text_of ''a'', text_of ''b'', text_of ''c''], None)"
  "fst (aiter_lines None (new_response (live_handle [''a'' @ [CR], [LF] @ ''b'' @ [CR, LF]]) None None)) =
     ([text_of ''a'', text_of ''b''], None)"
  "fst (aiter_lines None (new_response (live_handle []) (Some body_crlf) None)) =
     ([text_of ''a'', text_of ''b''], None)"
  by code_simp+

text \<open>
  C5. The two branches of \<^verbatim>\<open>aiter_lines()\<close> disagree on the same bytes. The body
  \<^verbatim>\<open>a\rb\<close> read from the live stream yields the single line \<^verbatim>\<open>a\rb\<close>, which is what the
  claim has (the body split at line feeds); the same body held in the materialised buffer
  yields the two lines \<^verbatim>\<open>a\<close> and \<^verbatim>\<open>b\<close>, the buffered branch splitting with
  \<^verbatim>\<open>str.splitlines()\<close> at a carriage return on its own. Likewise the body \<^verbatim>\<open>a\r\r\n\<close> yields
  \<^verbatim>\<open>a\<close> from the stream, and \<^verbatim>\<open>a\<close> followed by an empty line from the buffer.
\<close>

theorem aiter_lines_branches_disagree:
  "fst (aiter_lines None (new_response (live_handle []) (Some (''a'' @ [CR] @ ''b'')) None)) =
     ([text_of ''a'', text_of ''b''], None) \<and>
   fst (aiter_lines None (new_response (live_handle [''a'' @ [CR] @ ''b'']) None None)) =
     ([text_of ''a'' @ [13] @ text_of ''b''], None) \<and>
   spec_lines (''a'' @ [CR] @ ''b'') = [text_of ''a'' @ [13] @ text_of ''b''] \<and>
   fst (aiter_lines None (new_response (live_handle []) (Some (''a'' @ [CR, CR, LF])) None)) =
     ([text_of ''a'', []], None) \<and>
   fst (aiter_lines None (new_response (live_handle [''a'' @ [CR, CR, LF]]) None None)) =
     ([text_of ''a''], None)"
  by code_simp

end
